theory Spec2Isabelle
  imports
    Main
    "HOL-Library.Char_ord"
    "HOL-Library.List_Lexorder"
    "HOL-Library.Multiset"
begin

section \<open>The GitHub engines of metasearch\<close>

text \<open>
  Three engines are embedded here: the user engine (\<^verbatim>\<open>src/engines/github-users.ts\<close>), the
  organization engine (the second module of the same file, with \<^verbatim>\<open>id: "github"\<close>) and the
  user engine with gists (\<^verbatim>\<open>unnamed/part_000\<close>).  Strings are lists of characters; the
  regular expressions of the source only look at ASCII characters, so a character of the
  model stands for one code unit of the JavaScript string.
\<close>

subsection \<open>Data\<close>

record repo =
  description :: "string option"
  isArchived :: bool
  isFork :: bool
  name :: string

record gist =
  gist_description :: "string option"
  gist_id :: string
  gist_updated_at :: string
  gist_html_url :: string

record item =
  item_body :: "string option"
  item_html_url :: string
  item_number :: nat
  item_pull_request :: bool
  item_title :: string
  item_updated_at :: string

record result =
  snippet :: "string option"
  title :: string
  url :: string
  modified :: "int option"

text \<open>
  The functions imported from \<^verbatim>\<open>../util\<close> and from \<^verbatim>\<open>marked\<close> are not part of the
  embedded modules; the engines take them as parameters.  \<open>fuzzyIncludes\<close> receives
  \<open>None\<close> where the organization engine passes a \<^verbatim>\<open>null\<close> description.
\<close>

record deps =
  escapeQuotes :: "string \<Rightarrow> string"
  fuzzyIncludes :: "string option \<Rightarrow> string \<Rightarrow> bool"
  getUnixTime :: "string \<Rightarrow> int"
  marked :: "string \<Rightarrow> string"

subsection \<open>Regular expressions of the source\<close>

definition is_word :: "char \<Rightarrow> bool" where
  \<comment> \<open>\<^verbatim>\<open>\w\<close>\<close>
  "is_word c \<longleftrightarrow>
     c \<in> set ''abcdefghijklmnopqrstuvwxyzABCDEFGHIJKLMNOPQRSTUVWXYZ0123456789_''"

definition is_shortcode_char :: "char \<Rightarrow> bool" where
  \<comment> \<open>\<^verbatim>\<open>[a-z-]\<close>\<close>
  "is_shortcode_char c \<longleftrightarrow> c \<in> set ''abcdefghijklmnopqrstuvwxyz-''"

definition qualifier_here :: "string list \<Rightarrow> string \<Rightarrow> bool" where
  \<comment> \<open>\<^verbatim>\<open>(kw1|kw2|...):\w\<close> matched at the head of the string\<close>
  "qualifier_here kws s =
     list_ex (\<lambda>kw. take (length kw + 1) s = kw @ '':'' \<and>
                   (case drop (length kw + 1) s of [] \<Rightarrow> False | c # _ \<Rightarrow> is_word c)) kws"

fun qualifier_from :: "string list \<Rightarrow> bool \<Rightarrow> string \<Rightarrow> bool" where
  \<comment> \<open>the flag says whether the position is at the start or after a non-word character\<close>
  "qualifier_from kws b [] = False"
| "qualifier_from kws b (c # cs) =
     ((b \<and> qualifier_here kws (c # cs)) \<or> qualifier_from kws (\<not> is_word c) cs)"

definition test_qualifier :: "string list \<Rightarrow> string \<Rightarrow> bool" where
  \<comment> \<open>\<^verbatim>\<open>/\b(kw1|kw2|...):\w/.test(q)\<close>, for keywords that start with a word character\<close>
  "test_qualifier kws q = qualifier_from kws True q"


definition match_shortcode :: "string \<Rightarrow> string option" where
  \<comment> \<open>\<^verbatim>\<open>/ *:[a-z-]+: */\<close> matched at the head of the string: the text after the match\<close>
  "match_shortcode s =
     (case dropWhile (\<lambda>c. c = CHR '' '') s of
        [] \<Rightarrow> None
      | c # s2 \<Rightarrow>
          if c \<noteq> CHR '':'' \<or> takeWhile is_shortcode_char s2 = [] then None
          else (case dropWhile is_shortcode_char s2 of
                  [] \<Rightarrow> None
                | d # s4 \<Rightarrow>
                    if d \<noteq> CHR '':'' then None
                    else Some (dropWhile (\<lambda>c. c = CHR '' '') s4)))"

lemma match_shortcode_shorter:
  "match_shortcode s = Some r \<Longrightarrow> length r < length s"
proof -
  assume m: "match_shortcode s = Some r"
  have dw: "\<And>P (xs::string). length (dropWhile P xs) \<le> length xs"
    by (simp add: length_dropWhile_le)
  from m obtain c s2 where s1: "dropWhile (\<lambda>c. c = CHR '' '') s = c # s2"
    by (auto simp: match_shortcode_def split: list.splits)
  from m s1 obtain d s4 where s3: "dropWhile is_shortcode_char s2 = d # s4"
    and r: "r = dropWhile (\<lambda>c. c = CHR '' '') s4"
    by (auto simp: match_shortcode_def split: list.splits if_splits)
  have "length r \<le> length s4" using r dw by simp
  moreover have "length s4 < length s2" using dw[of is_shortcode_char s2] s3 by simp
  moreover have "length s2 < length s" using dw[of "\<lambda>c. c = CHR '' ''" s] s1 by simp
  ultimately show ?thesis by simp
qed

function strip_shortcodes :: "string \<Rightarrow> string" where
  \<comment> \<open>\<^verbatim>\<open>s.replace(/ *:[a-z-]+: */g, "")\<close>\<close>
  "strip_shortcodes [] = []"
| "strip_shortcodes (c # cs) =
     (case match_shortcode (c # cs) of
        Some r \<Rightarrow> strip_shortcodes r
      | None \<Rightarrow> c # strip_shortcodes cs)"
  by pat_completeness auto
termination
  by (relation "measure length") (auto dest: match_shortcode_shorter)

fun slug_here :: "string \<Rightarrow> string option" where
  \<comment> \<open>\<^verbatim>\<open>([^\/]+\/[^\/]+)\<close> matched at the head of the string\<close>
  "slug_here s =
     (let owner = takeWhile (\<lambda>c. c \<noteq> CHR ''/'') s;
          rest = dropWhile (\<lambda>c. c \<noteq> CHR ''/'') s
      in if owner = [] then None
         else (case rest of
                 [] \<Rightarrow> None
               | _ # t \<Rightarrow>
                   let rp = takeWhile (\<lambda>c. c \<noteq> CHR ''/'') t
                   in if rp = [] then None else Some (owner @ ''/'' @ rp)))"

fun match_slug :: "string \<Rightarrow> string option" where
  \<comment> \<open>\<^verbatim>\<open>s.match(/github\.com\/([^\/]+\/[^\/]+)/)?.[1]\<close>\<close>
  "match_slug [] = None"
| "match_slug (c # cs) =
     (if take 11 (c # cs) = ''github.com/'' \<and> slug_here (drop 11 (c # cs)) \<noteq> None
      then slug_here (drop 11 (c # cs))
      else match_slug cs)"

definition truthy :: "string option \<Rightarrow> bool" where
  \<comment> \<open>a string, \<^verbatim>\<open>null\<close> or \<^verbatim>\<open>undefined\<close> used as a condition\<close>
  "truthy s \<longleftrightarrow> (case s of None \<Rightarrow> False | Some t \<Rightarrow> t \<noteq> [])"

subsection \<open>The query of the live search\<close>

definition scoped_query :: "deps \<Rightarrow> string \<Rightarrow> string \<Rightarrow> string \<Rightarrow> string" where
  \<comment> \<open>the parameter \<^verbatim>\<open>q\<close> of \<^verbatim>\<open>/search/issues\<close>; the scope is \<^verbatim>\<open>user\<close> or \<^verbatim>\<open>org\<close>\<close>
  \<open>scoped_query U scope account q =
     (if test_qualifier [''is'', ''author'', scope] q
      then (if test_qualifier [scope] q then q
            else scope @ '':'' @ account @ '' '' @ q)
      else scope @ '':'' @ account @ '' "'' @ escapeQuotes U q @ ''"'')\<close>

subsection \<open>Results of the repositories\<close>

definition repo_snippet :: "repo \<Rightarrow> string option" where
  \<comment> \<open>\<^verbatim>\<open>r.description?.replace(/ *:[a-z-]+: */g, "") || undefined\<close>\<close>
  "repo_snippet r =
     (case description r of
        None \<Rightarrow> None
      | Some d \<Rightarrow> if strip_shortcodes d = [] then None else Some (strip_shortcodes d))"

definition repo_result :: "string \<Rightarrow> repo \<Rightarrow> result" where
  "repo_result account r =
     \<lparr> snippet = repo_snippet r,
       title = ''Repo '' @ account @ ''/'' @ name r,
       url = ''https://github.com/'' @ account @ ''/'' @ name r,
       modified = None \<rparr>"

subsection \<open>Objects, sets of objects and the outside world\<close>

text \<open>
  A \<^verbatim>\<open>Set\<close> of JavaScript objects compares its members by identity, not by their fields.
  An object is therefore a pair of its identity and its fields; a set is the list of its
  members in insertion order, which is the order \<^verbatim>\<open>Array.from\<close> reads them in.
\<close>

type_synonym 'a obj = "nat \<times> 'a"

definition set_add :: "'a obj \<Rightarrow> 'a obj list \<Rightarrow> 'a obj list" where
  \<comment> \<open>\<^verbatim>\<open>s.add(x)\<close>\<close>
  "set_add x s = (if fst x \<in> fst ` set s then s else s @ [x])"

datatype error = EngineNotInitialized | HttpFailure string | TypeError

datatype log = Warn string | Err string

definition error_text :: "error \<Rightarrow> string" where
  \<comment> \<open>an error inside a template string; a rejection carries its own text\<close>
  "error_text e =
     (case e of
        EngineNotInitialized \<Rightarrow> ''Error: Engine not initialized''
      | HttpFailure m \<Rightarrow> m
      | TypeError \<Rightarrow> ''TypeError'')"

record page_info =
  endCursor :: "string option"
  hasNextPage :: bool

text \<open>
  A field that the source destructures with a default: the default stands in for an
  absent field (\<^verbatim>\<open>undefined\<close>) only, and a \<^verbatim>\<open>null\<close> stays \<^verbatim>\<open>null\<close>.
\<close>

datatype 'a field = Absent | Null | Present 'a

record connection =
  edges :: "repo obj list field"
  pageInfo :: "page_info field"

record owner =
  repositories :: "connection option"

record gql_data =
  user :: "owner option"
  organization :: "owner option"

record gql_body =
  data :: "gql_data option"

text \<open>
  Where the source only tests a value for truth (\<^verbatim>\<open>data\<close>, \<^verbatim>\<open>user\<close>, \<^verbatim>\<open>organization\<close>,
  \<^verbatim>\<open>repositories\<close>, \<^verbatim>\<open>endCursor\<close>, the body of a response), an absent value and a
  \<^verbatim>\<open>null\<close> are both \<open>None\<close>.  The world holds, for each endpoint,
  the outcomes of the requests still to come (\<open>Inl\<close> for a rejected request), the requests
  sent so far and the console.  A computation that awaits a request whose outcome never
  comes does not return: its value is \<open>None\<close>.
\<close>

record world =
  graphql :: "(error + gql_body option) list"
  gists_api :: "(error + gist obj list option) list"
  issues_api :: "(error + item list option) list"
  posted :: "string list"
  gists_requested :: "string list"
  searched :: "string list"
  console :: "log list"

type_synonym 'a run = "((error + 'a) \<times> world) option"

definition say :: "log \<Rightarrow> world \<Rightarrow> world" where
  "say l w = w\<lparr>console := console w @ [l]\<rparr>"

subsection \<open>Walking the pages of an account\<close>

definition after_clause :: "string option \<Rightarrow> string" where
  \<comment> \<open>\<^verbatim>\<open>cursor ? `, after: \"${cursor}\"` : ""\<close>\<close>
  \<open>after_clause cursor =
     (case cursor of
        None \<Rightarrow> []
      | Some c \<Rightarrow> if c = [] then [] else '', after: "'' @ c @ ''"'')\<close>

definition graphql_query :: "string \<Rightarrow> string \<Rightarrow> string option \<Rightarrow> string" where
  \<comment> \<open>the query of the POST, its line breaks and indentation written as single spaces\<close>
  \<open>graphql_query kind login cursor =
     ''query { '' @ kind @ ''(login: "'' @ login @ ''") { repositories(first: 100'' @
     after_clause cursor @
     '') { edges { node { description isArchived isFork name } } '' @
     ''pageInfo { endCursor hasNextPage } } } }''\<close>

definition post_graphql :: "string \<Rightarrow> world \<Rightarrow> (gql_body option) run" where
  \<comment> \<open>\<^verbatim>\<open>await axiosClient.post("/graphql", ...)\<close>, giving \<^verbatim>\<open>response.data\<close>\<close>
  "post_graphql query w =
     (case graphql w of
        [] \<Rightarrow> None
      | r # rest \<Rightarrow> Some (r, w\<lparr>graphql := rest, posted := posted w @ [query]\<rparr>))"

definition user_repositories :: "gql_body option \<Rightarrow> connection option" where
  \<comment> \<open>\<^verbatim>\<open>data && data.user && data.user.repositories\<close>\<close>
  "user_repositories b =
     (case b of
        None \<Rightarrow> None
      | Some body \<Rightarrow>
          (case data body of
             None \<Rightarrow> None
           | Some d \<Rightarrow> (case user d of None \<Rightarrow> None | Some u \<Rightarrow> repositories u)))"

definition organization_of :: "gql_body option \<Rightarrow> owner option" where
  \<comment> \<open>\<^verbatim>\<open>data && data.organization\<close>\<close>
  "organization_of b =
     (case b of
        None \<Rightarrow> None
      | Some body \<Rightarrow> (case data body of None \<Rightarrow> None | Some d \<Rightarrow> organization d))"

lemma post_graphql_shorter:
  "post_graphql query w = Some (r, w') \<Longrightarrow> length (graphql w') < length (graphql w)"
  by (auto simp: post_graphql_def split: list.splits)

function user_pages ::
  "string \<Rightarrow> string option \<Rightarrow> repo obj list \<Rightarrow> world \<Rightarrow> (repo obj list) run" where
  \<comment> \<open>the \<^verbatim>\<open>while (true)\<close> of the user engines; \<^verbatim>\<open>edges.map\<close> of a \<^verbatim>\<open>null\<close> and
      \<^verbatim>\<open>pageInfo.hasNextPage\<close> of a \<^verbatim>\<open>null\<close> are type errors\<close>
  \<open>user_pages login cursor repos w =
     (case post_graphql (graphql_query ''user'' login cursor) w of
        None \<Rightarrow> None
      | Some (Inl e, w1) \<Rightarrow> Some (Inl e, w1)
      | Some (Inr response, w1) \<Rightarrow>
          (case user_repositories response of
             None \<Rightarrow>
               Some (Inr repos,
                 say (Warn (''User "'' @ login @
                   ''" not found, has no repositories, or access is restricted.'')) w1)
           | Some c \<Rightarrow>
               if edges c = Null \<or> pageInfo c = Null then Some (Inl TypeError, w1)
               else
                 (let es = (case edges c of Present es \<Rightarrow> es | _ \<Rightarrow> []);
                      pi = (case pageInfo c of
                              Present p \<Rightarrow> p
                            | _ \<Rightarrow> \<lparr>endCursor = None, hasNextPage = False\<rparr>);
                      repos1 = fold set_add es repos
                  in if hasNextPage pi then user_pages login (endCursor pi) repos1 w1
                     else Some (Inr repos1, w1))))\<close>
  by pat_completeness auto
termination
  by (relation "measure (\<lambda>(login, cursor, repos, w). length (graphql w))")
     (auto dest: post_graphql_shorter)

function org_pages ::
  "string \<Rightarrow> string option \<Rightarrow> repo obj list \<Rightarrow> world \<Rightarrow> (repo obj list) run" where
  \<comment> \<open>the \<^verbatim>\<open>while (true)\<close> of the organization engine\<close>
  \<open>org_pages login cursor repos w =
     (case post_graphql (graphql_query ''organization'' login cursor) w of
        None \<Rightarrow> None
      | Some (Inl e, w1) \<Rightarrow> Some (Inl e, w1)
      | Some (Inr response, w1) \<Rightarrow>
          (case organization_of response of
             None \<Rightarrow>
               Some (Inr repos,
                 say (Warn (''Organization "'' @ login @ ''" not found or no access.'')) w1)
           | Some org \<Rightarrow>
               (case repositories org of
                  None \<Rightarrow> Some (Inl TypeError, w1)
                | Some c \<Rightarrow>
                    (case edges c of
                       Present es \<Rightarrow>
                         (case pageInfo c of
                            Present pi \<Rightarrow>
                              if hasNextPage pi
                              then org_pages login (endCursor pi) (fold set_add es repos) w1
                              else Some (Inr (fold set_add es repos), w1)
                          | _ \<Rightarrow> Some (Inl TypeError, w1))
                     | _ \<Rightarrow> Some (Inl TypeError, w1)))))\<close>
  by pat_completeness auto
termination
  by (relation "measure (\<lambda>(login, cursor, repos, w). length (graphql w))")
     (auto dest: post_graphql_shorter)

subsection \<open>The producers behind \<^verbatim>\<open>getRepos\<close>\<close>

type_synonym repo_map = "string \<rightharpoonup> repo obj list"

type_synonym data_map = "string \<rightharpoonup> repo obj list \<times> gist obj list"

fun walk_users :: "string list \<Rightarrow> repo_map \<Rightarrow> world \<Rightarrow> repo_map run" where
  \<comment> \<open>the function \<^verbatim>\<open>init\<close> hands to \<^verbatim>\<open>rateLimit\<close> in the user engine:
      \<^verbatim>\<open>for (const user of usernames)\<close>, from the map given\<close>
  "walk_users [] reposByUser w = Some (Inr reposByUser, w)"
| "walk_users (u # us) reposByUser w =
     (case user_pages u None [] w of
        None \<Rightarrow> None
      | Some (Inl e, w1) \<Rightarrow> Some (Inl e, w1)
      | Some (Inr repos, w1) \<Rightarrow> walk_users us (reposByUser(u \<mapsto> repos)) w1)"

fun walk_orgs :: "string list \<Rightarrow> repo_map \<Rightarrow> world \<Rightarrow> repo_map run" where
  \<comment> \<open>the function \<^verbatim>\<open>init\<close> hands to \<^verbatim>\<open>rateLimit\<close> in the organization engine:
      \<^verbatim>\<open>for (const org of organizations)\<close>, from the map given\<close>
  "walk_orgs [] reposByOrg w = Some (Inr reposByOrg, w)"
| "walk_orgs (org # orgs) reposByOrg w =
     (case org_pages org None [] w of
        None \<Rightarrow> None
      | Some (Inl e, w1) \<Rightarrow> Some (Inl e, w1)
      | Some (Inr repos, w1) \<Rightarrow> walk_orgs orgs (reposByOrg(org \<mapsto> repos)) w1)"

definition get_gists :: "string \<Rightarrow> world \<Rightarrow> (gist obj list option) run" where
  \<comment> \<open>\<^verbatim>\<open>await axiosClient.get(`/users/${user}/gists`)\<close>, giving \<^verbatim>\<open>response.data\<close>\<close>
  "get_gists login w =
     (case gists_api w of
        [] \<Rightarrow> None
      | r # rest \<Rightarrow>
          Some (r, w\<lparr>gists_api := rest,
                     gists_requested := gists_requested w @ [''/users/'' @ login @ ''/gists'']\<rparr>))"

definition fetch_gists :: "string \<Rightarrow> world \<Rightarrow> (gist obj list \<times> world) option" where
  \<comment> \<open>the \<^verbatim>\<open>try\<close> and \<^verbatim>\<open>catch\<close> around the gists of one user\<close>
  \<open>fetch_gists login w =
     (case get_gists login w of
        None \<Rightarrow> None
      | Some (Inl e, w1) \<Rightarrow>
          Some ([], say (Warn (''Error fetching gists for user "'' @ login @ ''": '' @
                               error_text e)) w1)
      | Some (Inr None, w1) \<Rightarrow>
          Some ([], say (Warn (''Error fetching gists for user "'' @ login @ ''": '' @
                               error_text TypeError)) w1)
      | Some (Inr (Some gistsData), w1) \<Rightarrow> Some (fold set_add gistsData [], w1))\<close>

fun walk_users_gists :: "string list \<Rightarrow> data_map \<Rightarrow> world \<Rightarrow> data_map run" where
  \<comment> \<open>the function \<^verbatim>\<open>init\<close> hands to \<^verbatim>\<open>rateLimit\<close> in the user engine with gists:
      \<^verbatim>\<open>for (const user of usernames)\<close>, from the map given\<close>
  "walk_users_gists [] dataByUser w = Some (Inr dataByUser, w)"
| "walk_users_gists (u # us) dataByUser w =
     (case user_pages u None [] w of
        None \<Rightarrow> None
      | Some (Inl e, w1) \<Rightarrow> Some (Inl e, w1)
      | Some (Inr repos, w1) \<Rightarrow>
          (case fetch_gists u w1 of
             None \<Rightarrow> None
           | Some (gists, w2) \<Rightarrow> walk_users_gists us (dataByUser(u \<mapsto> (repos, gists))) w2))"

text \<open>
  Modelled from the spec: \<^verbatim>\<open>rateLimit\<close> of \<^verbatim>\<open>../util\<close>, which is not among the embedded
  modules.  The spec (4.1) says that a call of the wrapped function while no run of the
  producer is in flight starts the producer, and that the call settles as that run settles,
  a rejection included.  A search awaits each call before it goes on, so in this sequential
  reading every call finds no run in flight.
\<close>

definition rateLimit :: "(world \<Rightarrow> 'a run) \<Rightarrow> nat \<Rightarrow> world \<Rightarrow> 'a run" where
  \<comment> \<open>Modelled from the spec: the wrapped function of \<^verbatim>\<open>rateLimit(producer, n)\<close>\<close>
  "rateLimit producer n w = producer w"

subsection \<open>The engines: \<^verbatim>\<open>init\<close>\<close>

record axios =
  baseURL :: string
  authorization :: string

record config =
  accounts_of :: "string list"
  origin :: "string option"
  token :: string

text \<open>
  The module variables of an engine.  \<open>getRepos\<close> is \<^verbatim>\<open>getReposAndGists\<close> in the engine
  with gists; \<open>accounts\<close> is \<^verbatim>\<open>users\<close> or \<^verbatim>\<open>orgs\<close>, and \<open>accounts_of\<close> is the
  \<^verbatim>\<open>usernames\<close> or \<^verbatim>\<open>organizations\<close> of the configuration.
\<close>

record 'm engine =
  client :: "axios option"
  getRepos :: "(world \<Rightarrow> 'm run) option"
  accounts :: "string list option"

definition uninitialized :: "'m engine" where
  "uninitialized = \<lparr> client = None, getRepos = None, accounts = None \<rparr>"

definition axios_create :: "config \<Rightarrow> axios" where
  "axios_create cfg =
     \<lparr> baseURL = (case origin cfg of None \<Rightarrow> ''https://api.github.com'' | Some s \<Rightarrow> s),
       authorization = ''bearer '' @ token cfg \<rparr>"

definition init_users :: "config \<Rightarrow> repo_map engine" where
  "init_users cfg =
     \<lparr> client = Some (axios_create cfg),
       getRepos = Some (rateLimit (walk_users (accounts_of cfg) Map.empty) 1),
       accounts = Some (accounts_of cfg) \<rparr>"

definition init_orgs :: "config \<Rightarrow> repo_map engine" where
  "init_orgs cfg =
     \<lparr> client = Some (axios_create cfg),
       getRepos = Some (rateLimit (walk_orgs (accounts_of cfg) Map.empty) 1),
       accounts = Some (accounts_of cfg) \<rparr>"

definition init_users_gists :: "config \<Rightarrow> data_map engine" where
  "init_users_gists cfg =
     \<lparr> client = Some (axios_create cfg),
       getRepos = Some (rateLimit (walk_users_gists (accounts_of cfg) Map.empty) 1),
       accounts = Some (accounts_of cfg) \<rparr>"

subsection \<open>The engines: \<^verbatim>\<open>search\<close>\<close>

text \<open>
  \<^verbatim>\<open>Array.prototype.sort\<close> with a comparator.  The language leaves the algorithm to the
  implementation and only fixes the result for a consistent comparator.  The comparators
  of the engines never answer 0, so they are consistent only where the compared keys
  differ.  The model takes the elements from left to right and puts each one before the
  first element already placed that the comparator does not put before it, which is what
  Node gives on a short array: of two elements with equal keys the later one comes first.
\<close>

fun js_insert :: "('a \<Rightarrow> 'a \<Rightarrow> int) \<Rightarrow> 'a \<Rightarrow> 'a list \<Rightarrow> 'a list" where
  "js_insert cmp x [] = [x]"
| "js_insert cmp x (y # ys) = (if cmp x y > 0 then y # js_insert cmp x ys else x # y # ys)"

definition js_sort :: "('a \<Rightarrow> 'a \<Rightarrow> int) \<Rightarrow> 'a list \<Rightarrow> 'a list" where
  "js_sort cmp xs = fold (js_insert cmp) xs []"

definition by_name :: "repo obj \<Rightarrow> repo obj \<Rightarrow> int" where
  \<comment> \<open>\<^verbatim>\<open>(a, b) => (a.name > b.name ? 1 : -1)\<close>\<close>
  "by_name a b = (if name (snd a) > name (snd b) then 1 else - 1)"

definition by_updated_at :: "gist obj \<Rightarrow> gist obj \<Rightarrow> int" where
  \<comment> \<open>\<^verbatim>\<open>(a, b) => (a.updated_at > b.updated_at ? 1 : -1)\<close>\<close>
  "by_updated_at a b = (if gist_updated_at (snd a) > gist_updated_at (snd b) then 1 else - 1)"

definition keep_user_repo :: "deps \<Rightarrow> string \<Rightarrow> repo \<Rightarrow> bool" where
  \<comment> \<open>the filter of the user engines: \<^verbatim>\<open>(s) => s && fuzzyIncludes(s, q)\<close>\<close>
  "keep_user_repo U q r \<longleftrightarrow>
     \<not> isArchived r \<and> \<not> isFork r \<and>
     ((truthy (description r) \<and> fuzzyIncludes U (description r) q) \<or>
      (name r \<noteq> [] \<and> fuzzyIncludes U (Some (name r)) q))"

definition keep_org_repo :: "deps \<Rightarrow> string \<Rightarrow> repo \<Rightarrow> bool" where
  \<comment> \<open>the filter of the organization engine: \<^verbatim>\<open>(s) => fuzzyIncludes(s, q)\<close>\<close>
  "keep_org_repo U q r \<longleftrightarrow>
     \<not> isArchived r \<and> \<not> isFork r \<and>
     (fuzzyIncludes U (description r) q \<or> fuzzyIncludes U (Some (name r)) q)"

definition user_repo_results :: "deps \<Rightarrow> string \<Rightarrow> string \<Rightarrow> repo obj list \<Rightarrow> result list" where
  "user_repo_results U account q repos =
     map (\<lambda>r. repo_result account (snd r))
       (js_sort by_name (filter (\<lambda>r. keep_user_repo U q (snd r)) repos))"

definition org_repo_results :: "deps \<Rightarrow> string \<Rightarrow> string \<Rightarrow> repo obj list \<Rightarrow> result list" where
  "org_repo_results U account q repos =
     map (\<lambda>r. repo_result account (snd r))
       (js_sort by_name (filter (\<lambda>r. keep_org_repo U q (snd r)) repos))"

definition gist_result :: "string \<Rightarrow> gist \<Rightarrow> result" where
  "gist_result account g =
     \<lparr> snippet = (if truthy (gist_description g) then gist_description g else None),
       title = ''Gist '' @ account @ ''/'' @ gist_id g,
       url = gist_html_url g,
       modified = None \<rparr>"

definition gist_results :: "deps \<Rightarrow> string \<Rightarrow> string \<Rightarrow> gist obj list \<Rightarrow> result list" where
  "gist_results U account q gists =
     map (\<lambda>g. gist_result account (snd g))
       (js_sort by_updated_at
          (filter (\<lambda>g. truthy (gist_description (snd g)) \<and>
                        fuzzyIncludes U (gist_description (snd g)) q) gists))"

definition item_result :: "deps \<Rightarrow> item \<Rightarrow> result" where
  "item_result U i =
     \<lparr> snippet =
         (case item_body i of
            None \<Rightarrow> None
          | Some b \<Rightarrow>
              if b = [] then None
              else Some (''<blockquote>'' @ marked U b @ ''</blockquote>'')),
       title =
         (if item_pull_request i then ''PR'' else ''Issue'') @ '' in '' @
         (case match_slug (item_html_url i) of None \<Rightarrow> ''undefined'' | Some s \<Rightarrow> s) @
         '': '' @ item_title i,
       url = item_html_url i,
       modified = Some (getUnixTime U (item_updated_at i)) \<rparr>"

definition get_issues :: "string \<Rightarrow> world \<Rightarrow> (item list option) run" where
  \<comment> \<open>\<^verbatim>\<open>await client.get("/search/issues", { params: { per_page: 100, q } })\<close>, giving
      \<^verbatim>\<open>data.items\<close>\<close>
  "get_issues q w =
     (case issues_api w of
        [] \<Rightarrow> None
      | r # rest \<Rightarrow> Some (r, w\<lparr>issues_api := rest, searched := searched w @ [q]\<rparr>))"

definition user_live_search ::
  "deps \<Rightarrow> string \<Rightarrow> string \<Rightarrow> world \<Rightarrow> (result list \<times> world) option" where
  \<comment> \<open>the \<^verbatim>\<open>try\<close> and \<^verbatim>\<open>catch\<close> of the user engines\<close>
  "user_live_search U account q w =
     (case get_issues (scoped_query U ''user'' account q) w of
        None \<Rightarrow> None
      | Some (Inl e, w1) \<Rightarrow>
          Some ([], say (Err (''Error fetching issues and pull requests: '' @ error_text e)) w1)
      | Some (Inr None, w1) \<Rightarrow>
          Some ([], say (Err (''Error fetching issues and pull requests: '' @
                              error_text TypeError)) w1)
      | Some (Inr (Some items), w1) \<Rightarrow> Some (map (item_result U) items, w1))"

definition org_live_search ::
  "deps \<Rightarrow> string \<Rightarrow> string \<Rightarrow> world \<Rightarrow> (result list \<times> world) option" where
  \<comment> \<open>the \<^verbatim>\<open>try\<close> and the empty \<^verbatim>\<open>catch\<close> of the organization engine\<close>
  "org_live_search U account q w =
     (case get_issues (scoped_query U ''org'' account q) w of
        None \<Rightarrow> None
      | Some (Inl e, w1) \<Rightarrow> Some ([], w1)
      | Some (Inr None, w1) \<Rightarrow> Some ([], w1)
      | Some (Inr (Some items), w1) \<Rightarrow> Some (map (item_result U) items, w1))"

fun search_users_loop ::
  "deps \<Rightarrow> (world \<Rightarrow> repo_map run) \<Rightarrow> string \<Rightarrow> string list \<Rightarrow> result list \<Rightarrow> world \<Rightarrow>
   (result list) run" where
  \<comment> \<open>\<^verbatim>\<open>for (const user of users)\<close> of the user engine\<close>
  "search_users_loop U g q [] results w = Some (Inr results, w)"
| "search_users_loop U g q (u # us) results w =
     (case g w of
        None \<Rightarrow> None
      | Some (Inl e, w1) \<Rightarrow> Some (Inl e, w1)
      | Some (Inr repos, w1) \<Rightarrow>
          (let userRepos = (case repos u of None \<Rightarrow> [] | Some s \<Rightarrow> s)
           in if userRepos = []
              then search_users_loop U g q us results
                     (say (Warn (''No repositories found for user: '' @ u)) w1)
              else (case user_live_search U u q w1 of
                      None \<Rightarrow> None
                    | Some (hits, w2) \<Rightarrow>
                        search_users_loop U g q us
                          (results @ user_repo_results U u q userRepos @ hits) w2)))"

fun search_orgs_loop ::
  "deps \<Rightarrow> (world \<Rightarrow> repo_map run) \<Rightarrow> string \<Rightarrow> string list \<Rightarrow> result list \<Rightarrow> world \<Rightarrow>
   (result list) run" where
  \<comment> \<open>\<^verbatim>\<open>for (const org of orgs)\<close> of the organization engine\<close>
  "search_orgs_loop U g q [] results w = Some (Inr results, w)"
| "search_orgs_loop U g q (org # orgs) results w =
     (case g w of
        None \<Rightarrow> None
      | Some (Inl e, w1) \<Rightarrow> Some (Inl e, w1)
      | Some (Inr repos, w1) \<Rightarrow>
          (let orgRepos = (case repos org of None \<Rightarrow> [] | Some s \<Rightarrow> s)
           in (case org_live_search U org q w1 of
                 None \<Rightarrow> None
               | Some (hits, w2) \<Rightarrow>
                   search_orgs_loop U g q orgs
                     (results @ org_repo_results U org q orgRepos @ hits) w2)))"

fun search_users_gists_loop ::
  "deps \<Rightarrow> (world \<Rightarrow> data_map run) \<Rightarrow> string \<Rightarrow> string list \<Rightarrow> result list \<Rightarrow> world \<Rightarrow>
   (result list) run" where
  \<comment> \<open>\<^verbatim>\<open>for (const user of users)\<close> of the user engine with gists\<close>
  "search_users_gists_loop U g q [] results w = Some (Inr results, w)"
| "search_users_gists_loop U g q (u # us) results w =
     (case g w of
        None \<Rightarrow> None
      | Some (Inl e, w1) \<Rightarrow> Some (Inl e, w1)
      | Some (Inr dataByUser, w1) \<Rightarrow>
          (case dataByUser u of
             None \<Rightarrow>
               search_users_gists_loop U g q us results
                 (say (Warn (''No data found for user: '' @ u)) w1)
           | Some (repos, gists) \<Rightarrow>
               if repos = [] \<and> gists = []
               then search_users_gists_loop U g q us results
                      (say (Warn (''No repositories or gists found for user: '' @ u)) w1)
               else (case user_live_search U u q w1 of
                       None \<Rightarrow> None
                     | Some (hits, w2) \<Rightarrow>
                         search_users_gists_loop U g q us
                           (results @ user_repo_results U u q repos @
                            gist_results U u q gists @ hits) w2)))"

definition search_users :: "deps \<Rightarrow> repo_map engine \<Rightarrow> string \<Rightarrow> world \<Rightarrow> (result list) run" where
  "search_users U eng q w =
     (case (client eng, getRepos eng, accounts eng) of
        (Some c, Some g, Some us) \<Rightarrow> search_users_loop U g q us [] w
      | _ \<Rightarrow> Some (Inl EngineNotInitialized, w))"

definition search_orgs :: "deps \<Rightarrow> repo_map engine \<Rightarrow> string \<Rightarrow> world \<Rightarrow> (result list) run" where
  "search_orgs U eng q w =
     (case (client eng, getRepos eng, accounts eng) of
        (Some c, Some g, Some us) \<Rightarrow> search_orgs_loop U g q us [] w
      | _ \<Rightarrow> Some (Inl EngineNotInitialized, w))"

definition search_users_gists ::
  "deps \<Rightarrow> data_map engine \<Rightarrow> string \<Rightarrow> world \<Rightarrow> (result list) run" where
  "search_users_gists U eng q w =
     (case (client eng, getRepos eng, accounts eng) of
        (Some c, Some g, Some us) \<Rightarrow> search_users_gists_loop U g q us [] w
      | _ \<Rightarrow> Some (Inl EngineNotInitialized, w))"

subsection \<open>Well-shaped pages and sample inputs\<close>

definition page_response :: "connection \<Rightarrow> gql_body option" where
  \<comment> \<open>the body \<^verbatim>\<open>{ data: { user: { repositories: c } } }\<close>\<close>
  "page_response c =
     Some \<lparr> data = Some \<lparr> user = Some \<lparr> repositories = Some c \<rparr>, organization = None \<rparr> \<rparr>"

definition well_shaped :: "connection \<Rightarrow> bool" where
  \<comment> \<open>\<^verbatim>\<open>edges\<close> is an array or absent, \<^verbatim>\<open>pageInfo\<close> is an object or absent\<close>
  "well_shaped c \<longleftrightarrow> edges c \<noteq> Null \<and> pageInfo c \<noteq> Null"

definition edges_of :: "connection \<Rightarrow> repo obj list" where
  "edges_of c = (case edges c of Present es \<Rightarrow> es | _ \<Rightarrow> [])"

definition has_next :: "connection \<Rightarrow> bool" where
  "has_next c = (case pageInfo c of Present p \<Rightarrow> hasNextPage p | _ \<Rightarrow> False)"

definition end_cursor :: "connection \<Rightarrow> string option" where
  "end_cursor c = (case pageInfo c of Present p \<Rightarrow> endCursor p | _ \<Rightarrow> None)"

definition empty_world :: world where
  "empty_world =
     \<lparr> graphql = [], gists_api = [], issues_api = [], posted = [], gists_requested = [],
       searched = [], console = [] \<rparr>"

definition twin :: repo where
  "twin = \<lparr> description = None, isArchived = False, isFork = False, name = ''x'' \<rparr>"

definition twin_world :: world where
  \<comment> \<open>one page whose two nodes are different objects with the same fields\<close>
  "twin_world =
     empty_world\<lparr>graphql :=
       [Inr (page_response \<lparr> edges = Present [(0, twin), (1, twin)],
                             pageInfo = Present \<lparr> endCursor = None, hasNextPage = False \<rparr> \<rparr>)]\<rparr>"

definition twin_pages :: "connection list" where
  \<comment> \<open>two pages, each with one node; the two nodes have the same fields\<close>
  "twin_pages =
     [\<lparr> edges = Present [(0, twin)],
        pageInfo = Present \<lparr> endCursor = Some ''c1'', hasNextPage = True \<rparr> \<rparr>,
      \<lparr> edges = Present [(1, twin)],
        pageInfo = Present \<lparr> endCursor = None, hasNextPage = False \<rparr> \<rparr>]"

definition empty_cursor_world :: world where
  \<comment> \<open>the first page says that a page follows and gives the empty string as its cursor\<close>
  "empty_cursor_world =
     empty_world\<lparr>graphql :=
       [Inr (page_response
               \<lparr> edges = Present [(0, twin)],
                 pageInfo = Present \<lparr> endCursor = Some [], hasNextPage = True \<rparr> \<rparr>),
        Inr (page_response
               \<lparr> edges = Present [(1, twin)],
                 pageInfo = Present \<lparr> endCursor = None, hasNextPage = False \<rparr> \<rparr>)]\<rparr>"

definition two_pages :: "connection list" where
  "two_pages =
     [\<lparr> edges = Present [(0, twin)],
        pageInfo = Present \<lparr> endCursor = Some ''c1'', hasNextPage = True \<rparr> \<rparr>,
      \<lparr> edges = Present [(1, twin\<lparr>name := ''y''\<rparr>)], pageInfo = Absent \<rparr>]"

text \<open>
  A sample of the imported functions, to run the engines on concrete inputs: quotes escaped
  with a backslash, containment as a plain substring test.
\<close>

definition sample_escapeQuotes :: "string \<Rightarrow> string" where
  "sample_escapeQuotes s = concat (map (\<lambda>c. if c = CHR 0x22 then [CHR 0x5C, c] else [c]) s)"

definition sample_fuzzyIncludes :: "string option \<Rightarrow> string \<Rightarrow> bool" where
  "sample_fuzzyIncludes s q =
     (case s of
        None \<Rightarrow> False
      | Some t \<Rightarrow> list_ex (\<lambda>i. take (length q) (drop i t) = q) [0..<Suc (length t)])"

definition sample_deps :: deps where
  "sample_deps =
     \<lparr> escapeQuotes = sample_escapeQuotes,
       fuzzyIncludes = sample_fuzzyIncludes,
       getUnixTime = (\<lambda>s. int (length s)),
       marked = (\<lambda>s. s) \<rparr>"

definition tool_x :: repo where
  "tool_x =
     \<lparr> description = Some ''a CLI tool'', isArchived = False, isFork = False, name = ''tool-x'' \<rparr>"

definition old_tool :: repo where
  "old_tool =
     \<lparr> description = Some ''an old tool'', isArchived = True, isFork = False, name = ''old'' \<rparr>"

definition kit :: repo where
  "kit = \<lparr> description = None, isArchived = False, isFork = False, name = ''a-toolkit'' \<rparr>"

text \<open>
  Two readings of "the description with the shortcode tokens stripped".  A token is a run
  of spaces, a colon, one or more lower-case letters or hyphens, a colon and a run of
  spaces.  \<open>removes d out\<close> reads the description from the left and removes every token it
  meets, with all the spaces that follow it; \<open>strip_trailing_shortcodes\<close> removes the
  tokens at the end of the description only.
\<close>

definition is_token :: "string \<Rightarrow> bool" where
  "is_token t \<longleftrightarrow>
     (\<exists>a m b. t = replicate a CHR '' '' @ '':'' @ m @ '':'' @ replicate b CHR '' '' \<and>
        m \<noteq> [] \<and> list_all is_shortcode_char m)"

inductive removes :: "string \<Rightarrow> string \<Rightarrow> bool" where
  removes_end: "removes [] []"
| removes_token:
    "is_token t \<Longrightarrow> r = [] \<or> hd r \<noteq> CHR '' '' \<Longrightarrow> removes r out \<Longrightarrow> removes (t @ r) out"
| removes_keep:
    "\<nexists>t r. c # cs = t @ r \<and> is_token t \<Longrightarrow> removes cs out \<Longrightarrow> removes (c # cs) (c # out)"

function strip_leading_shortcodes :: "string \<Rightarrow> string" where
  "strip_leading_shortcodes s =
     (case match_shortcode s of Some r \<Rightarrow> strip_leading_shortcodes r | None \<Rightarrow> s)"
  by pat_completeness auto
termination
  by (relation "measure length") (auto dest: match_shortcode_shorter)

definition strip_trailing_shortcodes :: "string \<Rightarrow> string" where
  \<comment> \<open>the token read backwards is a token, so the end of the text is the head of its reverse\<close>
  "strip_trailing_shortcodes s = rev (strip_leading_shortcodes (rev s))"

definition alice_config :: config where
  "alice_config = \<lparr> accounts_of = [''alice''], origin = None, token = ''t'' \<rparr>"

definition ghost_acme_config :: config where
  "ghost_acme_config = \<lparr> accounts_of = [''ghost'', ''acme''], origin = None, token = ''t'' \<rparr>"

definition last_page :: "repo obj list \<Rightarrow> gql_body option" where
  \<comment> \<open>a well-shaped last page of the user engines\<close>
  "last_page es =
     page_response
       \<lparr> edges = Present es, pageInfo = Present \<lparr> endCursor = None, hasNextPage = False \<rparr> \<rparr>"

definition crash_issue :: item where
  "crash_issue =
     \<lparr> item_body = Some ''It crashes.'',
       item_html_url = ''https://github.com/alice/tool-x/issues/7'',
       item_number = 7,
       item_pull_request = False,
       item_title = ''tool crash'',
       item_updated_at = ''2024-01-01T00:00:00Z'' \<rparr>"

definition tool_gist :: gist where
  "tool_gist =
     \<lparr> gist_description = Some ''tool notes'',
       gist_id = ''g1'',
       gist_updated_at = ''2023-05-05T00:00:00Z'',
       gist_html_url = ''https://gist.github.com/alice/g1'' \<rparr>"

definition no_repos_world :: world where
  \<comment> \<open>alice has no repositories; the issue search would find one issue\<close>
  "no_repos_world =
     empty_world\<lparr>graphql := [Inr (last_page [])], issues_api := [Inr (Some [crash_issue])]\<rparr>"

definition network_error_world :: world where
  \<comment> \<open>the POST of the first page is rejected\<close>
  "network_error_world =
     empty_world\<lparr>graphql := [Inl (HttpFailure ''Error: Network Error'')],
                  issues_api := [Inr (Some [crash_issue])]\<rparr>"

definition org_without_repositories :: "gql_body option" where
  \<comment> \<open>the body \<^verbatim>\<open>{ data: { organization: {} } }\<close>\<close>
  "org_without_repositories =
     Some \<lparr> data = Some \<lparr> user = None, organization = Some \<lparr> repositories = None \<rparr> \<rparr> \<rparr>"

definition acme_page :: "gql_body option" where
  \<comment> \<open>a well-shaped last page of the organization engine\<close>
  "acme_page =
     Some \<lparr> data = Some \<lparr> user = None,
       organization = Some \<lparr> repositories =
         Some \<lparr> edges = Present [(0, tool_x)],
                pageInfo = Present \<lparr> endCursor = None, hasNextPage = False \<rparr> \<rparr> \<rparr> \<rparr> \<rparr>"

definition ghost_world :: world where
  \<comment> \<open>the first organization comes without its repositories, the second is well-shaped\<close>
  "ghost_world = empty_world\<lparr>graphql := [Inr org_without_repositories, Inr acme_page]\<rparr>"

definition full_world :: world where
  \<comment> \<open>alice has two repositories and one gist; the issue search finds one issue\<close>
  "full_world =
     empty_world\<lparr>graphql := [Inr (last_page [(0, tool_x), (1, old_tool)])],
                  gists_api := [Inr (Some [(0, tool_gist)])],
                  issues_api := [Inr (Some [crash_issue])]\<rparr>"

definition empty_org_world :: world where
  \<comment> \<open>acme has no repositories; the issue search finds one issue\<close>
  "empty_org_world =
     empty_world\<lparr>graphql :=
       [Inr (Some \<lparr> data = Some \<lparr> user = None,
          organization = Some \<lparr> repositories =
            Some \<lparr> edges = Present [],
                   pageInfo = Present \<lparr> endCursor = None, hasNextPage = False \<rparr> \<rparr> \<rparr> \<rparr> \<rparr>)],
       issues_api := [Inr (Some [crash_issue])]\<rparr>"

subsection \<open>The memoizer under overlapping calls\<close>

text \<open>
  Modelled from the spec: \<^verbatim>\<open>rateLimit\<close> of \<^verbatim>\<open>../util\<close> under calls that overlap, which the
  embedded modules only call.  The spec (4.1) says: a call while a run of the producer is
  in flight receives the pending result of that run and starts nothing; a call while no
  run is in flight starts a run; when the run settles, fulfilled or rejected, the next
  call may start a new run, and a rejection is not kept.  The events are the calls (with
  the name of the caller) and the settling of the run in flight; runs are numbered in the
  order they start, and \<open>handed\<close> lists which run each caller was handed.
\<close>

datatype event = Call nat | Settle bool

record memo =
  in_flight :: "nat option"
  started :: nat
  finished :: nat
  handed :: "(nat \<times> nat) list"

definition idle :: memo where
  \<comment> \<open>Modelled from the spec: the memoizer as \<^verbatim>\<open>rateLimit(producer, 1)\<close> returns it\<close>
  "idle = \<lparr> in_flight = None, started = 0, finished = 0, handed = [] \<rparr>"

fun memo_step :: "event \<Rightarrow> memo \<Rightarrow> memo" where
  \<comment> \<open>Modelled from the spec: one call of the wrapped function, or the run settling\<close>
  "memo_step (Call c) s =
     (case in_flight s of
        Some r \<Rightarrow> s\<lparr>handed := handed s @ [(c, r)]\<rparr>
      | None \<Rightarrow>
          s\<lparr>in_flight := Some (started s), started := Suc (started s),
            handed := handed s @ [(c, started s)]\<rparr>)"
| "memo_step (Settle ok) s =
     (case in_flight s of
        Some r \<Rightarrow> s\<lparr>in_flight := None, finished := Suc (finished s)\<rparr>
      | None \<Rightarrow> s)"

definition memo_run :: "event list \<Rightarrow> memo \<Rightarrow> memo" where
  "memo_run evs s = fold memo_step evs s"

text \<open>
  A result that has a \<^verbatim>\<open>modified\<close> field is the result of an issue or pull request.
\<close>

definition dated_as_item :: "deps \<Rightarrow> result \<Rightarrow> bool" where
  "dated_as_item U r \<longleftrightarrow> (modified r \<noteq> None \<longrightarrow> (\<exists>i. r = item_result U i))"

section \<open>Properties\<close>

declare user_pages.simps [simp del] org_pages.simps [simp del]

subsection \<open>The walk over the pages\<close>

lemma user_repositories_page [simp]: "user_repositories (page_response c) = Some c"
  by (simp add: user_repositories_def page_response_def)

lemma user_pages_last:
  assumes "graphql w = Inr (page_response c) # rest" and "well_shaped c" and "\<not> has_next c"
  shows "user_pages login cursor repos w =
     Some (Inr (fold set_add (edges_of c) repos),
           w\<lparr>graphql := rest, posted := posted w @ [graphql_query ''user'' login cursor]\<rparr>)"
  using assms
  by (subst user_pages.simps)
     (simp add: post_graphql_def has_next_def edges_of_def well_shaped_def split: field.splits)

lemma user_pages_next:
  assumes "graphql w = Inr (page_response c) # rest" and "well_shaped c" and "has_next c"
  shows "user_pages login cursor repos w =
     user_pages login (end_cursor c) (fold set_add (edges_of c) repos)
       (w\<lparr>graphql := rest, posted := posted w @ [graphql_query ''user'' login cursor]\<rparr>)"
  using assms
  by (subst user_pages.simps)
     (simp add: post_graphql_def has_next_def end_cursor_def edges_of_def well_shaped_def
           split: field.splits)

lemma user_pages_null:
  assumes "graphql w = Inr (page_response c) # rest" and "\<not> well_shaped c"
  shows "user_pages login cursor repos w =
     Some (Inl TypeError,
           w\<lparr>graphql := rest, posted := posted w @ [graphql_query ''user'' login cursor]\<rparr>)"
  using assms
  by (subst user_pages.simps) (auto simp: post_graphql_def well_shaped_def)

lemma user_pages_script:
  assumes "pages \<noteq> []"
    and "\<forall>c\<in>set pages. well_shaped c"
    and "\<forall>c\<in>set (butlast pages). has_next c"
    and "\<not> has_next (last pages)"
    and "graphql w = map (\<lambda>c. Inr (page_response c)) pages @ rest"
  shows "user_pages login cursor repos w =
     Some (Inr (fold set_add (concat (map edges_of pages)) repos),
           w\<lparr>graphql := rest,
             posted := posted w @
               map (graphql_query ''user'' login) (cursor # map end_cursor (butlast pages))\<rparr>)"
  using assms
proof (induction pages arbitrary: cursor repos w)
  case Nil
  then show ?case by simp
next
  case (Cons c pages)
  from Cons.prems have ws: "well_shaped c" by simp
  show ?case
  proof (cases "pages = []")
    case True
    with Cons.prems ws show ?thesis
      by (simp add: user_pages_last)
  next
    case False
    let ?w1 = "w\<lparr>graphql := map (\<lambda>c. Inr (page_response c)) pages @ rest,
                  posted := posted w @ [graphql_query ''user'' login cursor]\<rparr>"
    from False Cons.prems have hn: "has_next c" and wl: "\<forall>c\<in>set pages. well_shaped c" and
      bl: "\<forall>c\<in>set (butlast pages). has_next c" and l: "\<not> has_next (last pages)"
      by auto
    have g: "graphql w = Inr (page_response c) # (map (\<lambda>c. Inr (page_response c)) pages @ rest)"
      using Cons.prems by simp
    have "user_pages login cursor repos w =
          user_pages login (end_cursor c) (fold set_add (edges_of c) repos) ?w1"
      using user_pages_next[OF g ws hn] .
    also have "\<dots> = Some (Inr (fold set_add (concat (map edges_of pages))
                               (fold set_add (edges_of c) repos)),
           ?w1\<lparr>graphql := rest,
             posted := posted ?w1 @
               map (graphql_query ''user'' login) (end_cursor c # map end_cursor (butlast pages))\<rparr>)"
      by (rule Cons.IH[OF False wl bl l]) simp
    finally show ?thesis using False by simp
  qed
qed

subsection \<open>Sets of objects\<close>

lemma set_add_ids: "fst ` set (set_add x s) = insert (fst x) (fst ` set s)"
  by (auto simp: set_add_def)

lemma set_add_distinct: "distinct (map fst s) \<Longrightarrow> distinct (map fst (set_add x s))"
  by (auto simp: set_add_def)

lemma fold_set_add_ids: "fst ` set (fold set_add es s) = fst ` set s \<union> fst ` set es"
  by (induction es arbitrary: s) (auto simp: set_add_ids)

lemma fold_set_add_distinct:
  "distinct (map fst s) \<Longrightarrow> distinct (map fst (fold set_add es s))"
  by (induction es arbitrary: s) (auto simp: set_add_distinct)

lemma fold_set_add_subset: "set (fold set_add es s) \<subseteq> set s \<union> set es"
proof (induction es arbitrary: s)
  case Nil
  then show ?case by simp
next
  case (Cons e es)
  have "set (set_add e s) \<subseteq> set s \<union> {e}" by (auto simp: set_add_def)
  with Cons[of "set_add e s"] show ?case by auto
qed

lemma fold_set_add_fresh:
  "distinct (map fst (s @ es)) \<Longrightarrow> fold set_add es s = s @ es"
proof (induction es arbitrary: s)
  case Nil
  then show ?case by simp
next
  case (Cons e es)
  from Cons.prems have "fst e \<notin> fst ` set s" by auto
  then have a: "set_add e s = s @ [e]" by (simp add: set_add_def)
  from Cons.prems have "distinct (map fst ((s @ [e]) @ es))" by simp
  from Cons.IH[OF this] a show ?case by simp
qed

text \<open>
  C1, as stated, fails.  The claim says that two returned items with the same name,
  description, isArchived and isFork collapse into one member of the recorded set.  The set
  is a \<^verbatim>\<open>Set\<close> of objects: one page with two nodes of equal fields leaves two members.
\<close>

theorem paginator_value_dedup_counterexample:
  "user_pages ''alice'' None [] twin_world =
     Some (Inr [(0, twin), (1, twin)],
           twin_world\<lparr>graphql := [], posted := [graphql_query ''user'' ''alice'' None]\<rparr>) \<and>
   map snd [(0 :: nat, twin), (1, twin)] \<noteq> remdups [twin, twin]"
  by (simp add: twin_world_def empty_world_def user_pages_last has_next_def edges_of_def
        well_shaped_def set_add_def)

text \<open>
  C1, amended.  For a walk over well-shaped pages (\<^verbatim>\<open>edges\<close> an array or absent,
  \<^verbatim>\<open>pageInfo\<close> an object or absent, \<^verbatim>\<open>hasNextPage\<close> true up to the last page and not
  at the last), the set recorded for the account holds
  every returned object once, members being compared by identity and not by their fields:
  no two members are the same object, every returned object is a member, and when the
  returned objects are all different objects (as the nodes of decoded responses are) the
  set is the list of all returned nodes in the order of arrival, nodes of equal fields
  included.  The user engine records this set for the account, the engine with gists
  records it beside the gists.
\<close>

theorem paginator_records_every_object:
  assumes "pages \<noteq> []"
    and "\<forall>c\<in>set pages. well_shaped c"
    and "\<forall>c\<in>set (butlast pages). has_next c"
    and "\<not> has_next (last pages)"
    and "graphql w = map (\<lambda>c. Inr (page_response c)) pages @ rest"
  shows "walk_users (login # logins) m w =
           walk_users logins (m(login \<mapsto> fold set_add (concat (map edges_of pages)) []))
             (w\<lparr>graphql := rest,
                posted := posted w @
                  map (graphql_query ''user'' login) (None # map end_cursor (butlast pages))\<rparr>) \<and>
         (\<forall>gists w2.
            fetch_gists login
              (w\<lparr>graphql := rest,
                 posted := posted w @
                   map (graphql_query ''user'' login)
                     (None # map end_cursor (butlast pages))\<rparr>) = Some (gists, w2) \<longrightarrow>
            walk_users_gists (login # logins) d w =
              walk_users_gists logins
                (d(login \<mapsto> (fold set_add (concat (map edges_of pages)) [], gists))) w2) \<and>
         distinct (map fst (fold set_add (concat (map edges_of pages)) [])) \<and>
         fst ` set (fold set_add (concat (map edges_of pages)) []) =
           fst ` set (concat (map edges_of pages)) \<and>
         set (fold set_add (concat (map edges_of pages)) []) \<subseteq>
           set (concat (map edges_of pages)) \<and>
         (distinct (map fst (concat (map edges_of pages))) \<longrightarrow>
            fold set_add (concat (map edges_of pages)) [] = concat (map edges_of pages))"
proof -
  let ?es = "concat (map edges_of pages)"
  let ?w1 = "w\<lparr>graphql := rest,
               posted := posted w @
                 map (graphql_query ''user'' login) (None # map end_cursor (butlast pages))\<rparr>"
  have "walk_users (login # logins) m w =
        walk_users logins (m(login \<mapsto> fold set_add ?es [])) ?w1"
    by (simp add: user_pages_script[OF assms])
  moreover have "\<forall>gists w2. fetch_gists login ?w1 = Some (gists, w2) \<longrightarrow>
            walk_users_gists (login # logins) d w =
              walk_users_gists logins (d(login \<mapsto> (fold set_add ?es [], gists))) w2"
    by (simp add: user_pages_script[OF assms])
  moreover have "distinct (map fst (fold set_add ?es []))"
    by (rule fold_set_add_distinct) simp
  moreover have "fst ` set (fold set_add ?es []) = fst ` set ?es"
    by (simp add: fold_set_add_ids)
  moreover have "set (fold set_add ?es []) \<subseteq> set ?es"
    using fold_set_add_subset[of ?es "[]"] by simp
  moreover have "distinct (map fst ?es) \<longrightarrow> fold set_add ?es [] = ?es"
    using fold_set_add_fresh[of "[]" ?es] by simp
  ultimately show ?thesis by blast
qed

theorem paginator_records_every_object_witness:
  "walk_users [''alice''] Map.empty
      (empty_world\<lparr>graphql := map (\<lambda>c. Inr (page_response c)) twin_pages\<rparr>) =
     Some (Inr [''alice'' \<mapsto> [(0, twin), (1, twin)]],
           empty_world\<lparr>graphql := [],
             posted := [graphql_query ''user'' ''alice'' None,
                        graphql_query ''user'' ''alice'' (Some ''c1'')]\<rparr>)"
proof -
  let ?w = "empty_world\<lparr>graphql := map (\<lambda>c. Inr (page_response c)) twin_pages\<rparr>"
  have 1: "twin_pages \<noteq> []" by (simp add: twin_pages_def)
  have 0: "\<forall>c\<in>set twin_pages. well_shaped c" by (simp add: twin_pages_def well_shaped_def)
  have 2: "\<forall>c\<in>set (butlast twin_pages). has_next c" by (simp add: twin_pages_def has_next_def)
  have 3: "\<not> has_next (last twin_pages)" by (simp add: twin_pages_def has_next_def)
  have 4: "graphql ?w = map (\<lambda>c. Inr (page_response c)) twin_pages @ []" by simp
  have 5: "distinct (map fst (concat (map edges_of twin_pages)))"
    by (simp add: twin_pages_def edges_of_def)
  from paginator_records_every_object[OF 1 0 2 3 4, of "''alice''" "[]" Map.empty] 5
  show ?thesis
    by (simp add: twin_pages_def edges_of_def end_cursor_def empty_world_def)
qed

text \<open>
  C6, as stated, fails.  The claim has request \<open>k + 1\<close> carry the \<^verbatim>\<open>endCursor\<close> of response
  \<open>k\<close>.  The query is built with \<^verbatim>\<open>cursor ? ... : ""\<close>: when the first response says that
  a page follows and its \<^verbatim>\<open>endCursor\<close> is the empty string, the second request carries no
  cursor and is the first request again.
\<close>

theorem empty_cursor_is_not_sent_counterexample:
  \<open>user_pages ''alice'' None [] empty_cursor_world =
     Some (Inr [(0, twin), (1, twin)],
           empty_world\<lparr>posted :=
             [''query { user(login: "alice") { repositories(first: 100) { edges { node { description isArchived isFork name } } pageInfo { endCursor hasNextPage } } } }'',
              ''query { user(login: "alice") { repositories(first: 100) { edges { node { description isArchived isFork name } } pageInfo { endCursor hasNextPage } } } }'']\<rparr>)\<close>
proof -
  let ?p1 = "\<lparr> edges = Present [(0, twin)],
               pageInfo = Present \<lparr> endCursor = Some [], hasNextPage = True \<rparr> \<rparr>"
  let ?p2 = "\<lparr> edges = Present [(1 :: nat, twin)],
               pageInfo = Present \<lparr> endCursor = None, hasNextPage = False \<rparr> \<rparr>"
  have "user_pages ''alice'' None [] empty_cursor_world =
        Some (Inr (fold set_add (concat (map edges_of [?p1, ?p2])) []),
              empty_cursor_world\<lparr>graphql := [],
                posted := posted empty_cursor_world @
                  map (graphql_query ''user'' ''alice'')
                    (None # map end_cursor (butlast [?p1, ?p2]))\<rparr>)"
    by (rule user_pages_script)
       (simp_all add: well_shaped_def has_next_def empty_cursor_world_def)
  then show ?thesis
    by (simp add: edges_of_def end_cursor_def set_add_def empty_cursor_world_def empty_world_def
          graphql_query_def after_clause_def)
qed

text \<open>
  C6, amended.  For a script of well-shaped page responses (\<^verbatim>\<open>edges\<close> an array or absent,
  \<^verbatim>\<open>pageInfo\<close> an object or absent) whose \<^verbatim>\<open>hasNextPage\<close> is true up to the last and false
  or absent at the last, the walk returns, and it has sent as many requests as there are
  responses, one after the other.  The first request carries no cursor.  Request \<open>k + 1\<close>
  carries \<^verbatim>\<open>, after: "c"\<close> when the \<^verbatim>\<open>endCursor\<close> of response \<open>k\<close> is a string \<open>c\<close> that
  is not empty, and carries no cursor when that \<^verbatim>\<open>endCursor\<close> is empty or absent.
\<close>

theorem walk_requests_follow_cursors:
  assumes "pages \<noteq> []"
    and "\<forall>c\<in>set pages. well_shaped c"
    and "\<forall>c\<in>set (butlast pages). has_next c"
    and "\<not> has_next (last pages)"
    and "graphql w = map (\<lambda>c. Inr (page_response c)) pages @ rest"
  shows \<open>user_pages login None [] w =
           Some (Inr (fold set_add (concat (map edges_of pages)) []),
                 w\<lparr>graphql := rest,
                   posted := posted w @
                     map (\<lambda>cursor.
                            ''query { user(login: "'' @ login @ ''") { repositories(first: 100'' @
                            (case cursor of
                               None \<Rightarrow> []
                             | Some c \<Rightarrow> if c = [] then [] else '', after: "'' @ c @ ''"'') @
                            '') { edges { node { description isArchived isFork name } } '' @
                            ''pageInfo { endCursor hasNextPage } } } }'')
                       (None # map end_cursor (butlast pages))\<rparr>) \<and>
         length (None # map end_cursor (butlast pages)) = length pages \<and>
         (\<forall>k. Suc k < length pages \<longrightarrow>
            (None # map end_cursor (butlast pages)) ! Suc k = end_cursor (pages ! k))\<close>
proof -
  have r: \<open>graphql_query ''user'' login =
           (\<lambda>cursor.
              ''query { user(login: "'' @ login @ ''") { repositories(first: 100'' @
              (case cursor of
                 None \<Rightarrow> []
               | Some c \<Rightarrow> if c = [] then [] else '', after: "'' @ c @ ''"'') @
              '') { edges { node { description isArchived isFork name } } '' @
              ''pageInfo { endCursor hasNextPage } } } }'')\<close>
    by (rule ext) (simp add: graphql_query_def after_clause_def)
  have "\<forall>k. Suc k < length pages \<longrightarrow>
            (None # map end_cursor (butlast pages)) ! Suc k = end_cursor (pages ! k)"
    by (simp add: nth_butlast)
  moreover have "length (None # map end_cursor (butlast pages)) = length pages"
    using assms(1) by simp
  ultimately show ?thesis
    using user_pages_script[OF assms, of login None "[]"] unfolding r by blast
qed

theorem walk_requests_follow_cursors_witness:
  \<open>user_pages ''alice'' None []
      (empty_world\<lparr>graphql := map (\<lambda>c. Inr (page_response c)) two_pages\<rparr>) =
     Some (Inr [(0, twin), (1, twin\<lparr>name := ''y''\<rparr>)],
           empty_world\<lparr>graphql := [],
             posted :=
               [''query { user(login: "alice") { repositories(first: 100) { edges { node { description isArchived isFork name } } pageInfo { endCursor hasNextPage } } } }'',
                ''query { user(login: "alice") { repositories(first: 100, after: "c1") { edges { node { description isArchived isFork name } } pageInfo { endCursor hasNextPage } } } }'']\<rparr>)\<close>
proof -
  let ?w = "empty_world\<lparr>graphql := map (\<lambda>c. Inr (page_response c)) two_pages\<rparr>"
  have 0: "\<forall>c\<in>set two_pages. well_shaped c" by (simp add: two_pages_def well_shaped_def)
  have 1: "two_pages \<noteq> []" by (simp add: two_pages_def)
  have 2: "\<forall>c\<in>set (butlast two_pages). has_next c" by (simp add: two_pages_def has_next_def)
  have 3: "\<not> has_next (last two_pages)" by (simp add: two_pages_def has_next_def)
  have 4: "graphql ?w = map (\<lambda>c. Inr (page_response c)) two_pages @ []" by simp
  from walk_requests_follow_cursors[OF 1 0 2 3 4, of "''alice''"]
  show ?thesis
    by (simp add: two_pages_def edges_of_def end_cursor_def empty_world_def set_add_def)
qed

subsection \<open>The query of the live search\<close>






subsection \<open>The results of the repositories\<close>

lemma mset_js_insert: "mset (js_insert cmp x ys) = add_mset x (mset ys)"
  by (induction ys) auto

lemma mset_fold_js_insert: "mset (fold (js_insert cmp) xs acc) = mset xs + mset acc"
  by (induction xs arbitrary: acc) (auto simp: mset_js_insert)

lemma mset_js_sort: "mset (js_sort cmp xs) = mset xs"
  by (simp add: js_sort_def mset_fold_js_insert)

lemma set_js_insert: "set (js_insert cmp x ys) = insert x (set ys)"
  by (induction ys) auto

lemma sorted_js_insert_by_name:
  "sorted (map (\<lambda>r. name (snd r)) ys) \<Longrightarrow>
   sorted (map (\<lambda>r. name (snd r)) (js_insert by_name x ys))"
  by (induction ys) (auto simp: by_name_def set_js_insert)

lemma sorted_fold_js_insert_by_name:
  "sorted (map (\<lambda>r. name (snd r)) acc) \<Longrightarrow>
   sorted (map (\<lambda>r. name (snd r)) (fold (js_insert by_name) xs acc))"
  by (induction xs arbitrary: acc) (auto simp: sorted_js_insert_by_name)

lemma sorted_js_sort_by_name: "sorted (map (\<lambda>r. name (snd r)) (js_sort by_name xs))"
  by (simp add: js_sort_def sorted_fold_js_insert_by_name)

lemma names_js_sort_by_name:
  "map (\<lambda>r. name (snd r)) (js_sort by_name xs) = sort (map (\<lambda>r. name (snd r)) xs)"
proof -
  have "mset (map (\<lambda>r. name (snd r)) (js_sort by_name xs)) = mset (map (\<lambda>r. name (snd r)) xs)"
    by (simp add: mset_js_sort)
  then show ?thesis
    using sorted_js_sort_by_name[of xs] by (metis properties_for_sort)
qed

text \<open>
  C8.  The repository results of an account are the results of exactly those members of the
  cached set that are neither archived nor forked and whose description or name matches
  the query (in the user engines a \<^verbatim>\<open>null\<close> or empty string never matches; in the
  organization engine the description is handed to \<^verbatim>\<open>fuzzyIncludes\<close> as it is), each
  member giving one result.  Their titles are \<^verbatim>\<open>Repo {account}/{name}\<close> and their URLs
  \<^verbatim>\<open>https://github.com/{account}/{name}\<close>, in ascending order of the names.  An archived
  or forked repository is never kept, whatever the query.
\<close>

theorem repo_results_filtered_sorted:
  "mset (user_repo_results U account q repos) =
     image_mset (\<lambda>r. repo_result account (snd r))
       (filter_mset
          (\<lambda>r. \<not> isArchived (snd r) \<and> \<not> isFork (snd r) \<and>
                ((truthy (description (snd r)) \<and> fuzzyIncludes U (description (snd r)) q) \<or>
                 (name (snd r) \<noteq> [] \<and> fuzzyIncludes U (Some (name (snd r))) q)))
          (mset repos)) \<and>
   map title (user_repo_results U account q repos) =
     map (\<lambda>n. ''Repo '' @ account @ ''/'' @ n)
       (sort (map (\<lambda>r. name (snd r)) (filter (\<lambda>r. keep_user_repo U q (snd r)) repos))) \<and>
   map url (user_repo_results U account q repos) =
     map (\<lambda>n. ''https://github.com/'' @ account @ ''/'' @ n)
       (sort (map (\<lambda>r. name (snd r)) (filter (\<lambda>r. keep_user_repo U q (snd r)) repos))) \<and>
   mset (org_repo_results U account q repos) =
     image_mset (\<lambda>r. repo_result account (snd r))
       (filter_mset
          (\<lambda>r. \<not> isArchived (snd r) \<and> \<not> isFork (snd r) \<and>
                (fuzzyIncludes U (description (snd r)) q \<or>
                 fuzzyIncludes U (Some (name (snd r))) q))
          (mset repos)) \<and>
   map title (org_repo_results U account q repos) =
     map (\<lambda>n. ''Repo '' @ account @ ''/'' @ n)
       (sort (map (\<lambda>r. name (snd r)) (filter (\<lambda>r. keep_org_repo U q (snd r)) repos))) \<and>
   map url (org_repo_results U account q repos) =
     map (\<lambda>n. ''https://github.com/'' @ account @ ''/'' @ n)
       (sort (map (\<lambda>r. name (snd r)) (filter (\<lambda>r. keep_org_repo U q (snd r)) repos))) \<and>
   (\<forall>r\<in>set repos. isArchived (snd r) \<or> isFork (snd r) \<longrightarrow>
      \<not> keep_user_repo U q (snd r) \<and> \<not> keep_org_repo U q (snd r))"
proof -
  have t: "\<And>xs. map title (map (\<lambda>r. repo_result account (snd r)) xs) =
             map (\<lambda>n. ''Repo '' @ account @ ''/'' @ n) (map (\<lambda>r. name (snd r)) xs)"
    by (simp add: repo_result_def)
  have u: "\<And>xs. map url (map (\<lambda>r. repo_result account (snd r)) xs) =
             map (\<lambda>n. ''https://github.com/'' @ account @ ''/'' @ n) (map (\<lambda>r. name (snd r)) xs)"
    by (simp add: repo_result_def)
  have m1: "mset (user_repo_results U account q repos) =
     image_mset (\<lambda>r. repo_result account (snd r))
       (filter_mset (\<lambda>r. keep_user_repo U q (snd r)) (mset repos))"
    by (simp add: user_repo_results_def mset_js_sort)
  have m2: "mset (org_repo_results U account q repos) =
     image_mset (\<lambda>r. repo_result account (snd r))
       (filter_mset (\<lambda>r. keep_org_repo U q (snd r)) (mset repos))"
    by (simp add: org_repo_results_def mset_js_sort)
  have "map title (user_repo_results U account q repos) =
     map (\<lambda>n. ''Repo '' @ account @ ''/'' @ n)
       (sort (map (\<lambda>r. name (snd r)) (filter (\<lambda>r. keep_user_repo U q (snd r)) repos)))"
    unfolding user_repo_results_def t names_js_sort_by_name ..
  moreover have "map url (user_repo_results U account q repos) =
     map (\<lambda>n. ''https://github.com/'' @ account @ ''/'' @ n)
       (sort (map (\<lambda>r. name (snd r)) (filter (\<lambda>r. keep_user_repo U q (snd r)) repos)))"
    unfolding user_repo_results_def u names_js_sort_by_name ..
  moreover have "map title (org_repo_results U account q repos) =
     map (\<lambda>n. ''Repo '' @ account @ ''/'' @ n)
       (sort (map (\<lambda>r. name (snd r)) (filter (\<lambda>r. keep_org_repo U q (snd r)) repos)))"
    unfolding org_repo_results_def t names_js_sort_by_name ..
  moreover have "map url (org_repo_results U account q repos) =
     map (\<lambda>n. ''https://github.com/'' @ account @ ''/'' @ n)
       (sort (map (\<lambda>r. name (snd r)) (filter (\<lambda>r. keep_org_repo U q (snd r)) repos)))"
    unfolding org_repo_results_def u names_js_sort_by_name ..
  moreover have "\<forall>r\<in>set repos. isArchived (snd r) \<or> isFork (snd r) \<longrightarrow>
      \<not> keep_user_repo U q (snd r) \<and> \<not> keep_org_repo U q (snd r)"
    by (auto simp: keep_user_repo_def keep_org_repo_def)
  ultimately show ?thesis
    using m1 m2 unfolding keep_user_repo_def keep_org_repo_def by simp
qed

theorem repo_results_filtered_sorted_witness:
  "map title (user_repo_results sample_deps ''alice'' ''tool''
     [(0, tool_x), (1, old_tool), (2, kit)]) = [''Repo alice/a-toolkit'', ''Repo alice/tool-x''] \<and>
   map url (org_repo_results sample_deps ''acme'' ''tool''
     [(0, tool_x), (1, old_tool), (2, kit)]) =
     [''https://github.com/acme/a-toolkit'', ''https://github.com/acme/tool-x'']"
proof -
  have s: "sort [''tool-x'', ''a-toolkit''] = [''a-toolkit'', ''tool-x'']"
    by simp
  show ?thesis
    using repo_results_filtered_sorted[of sample_deps "''alice''" "''tool''"
            "[(0, tool_x), (1, old_tool), (2, kit)]"]
      repo_results_filtered_sorted[of sample_deps "''acme''" "''tool''"
            "[(0, tool_x), (1, old_tool), (2, kit)]"] s
    by (simp add: keep_user_repo_def keep_org_repo_def sample_deps_def sample_fuzzyIncludes_def
          tool_x_def old_tool_def kit_def truthy_def)
qed

subsection \<open>The snippet of a repository\<close>

declare strip_leading_shortcodes.simps [simp del]

lemma all_same_replicate: "\<forall>c\<in>set xs. c = x \<Longrightarrow> xs = replicate (length xs) x"
  by (induction xs) auto

lemma takeWhile_spaces:
  "takeWhile (\<lambda>c. c = x) s = replicate (length (takeWhile (\<lambda>c. c = x) s)) x"
  by (rule all_same_replicate) (auto dest: set_takeWhileD)

lemma dropWhile_no_lead: "dropWhile P s = [] \<or> \<not> P (hd (dropWhile P s))"
  by (metis hd_dropWhile)

lemma match_shortcode_token:
  assumes "match_shortcode s = Some r"
  shows "\<exists>t. s = t @ r \<and> is_token t \<and> (r = [] \<or> hd r \<noteq> CHR '' '')"
proof -
  let ?sp = "\<lambda>c. c = CHR '' ''"
  from assms obtain c s2 where s1: "dropWhile ?sp s = c # s2"
    by (auto simp: match_shortcode_def split: list.splits)
  from assms s1 have c: "c = CHR '':''" and m: "takeWhile is_shortcode_char s2 \<noteq> []"
    by (auto simp: match_shortcode_def split: list.splits if_splits)
  from assms s1 c m obtain d s4 where s3: "dropWhile is_shortcode_char s2 = d # s4"
    by (auto simp: match_shortcode_def split: list.splits if_splits)
  from assms s1 c m s3 have d: "d = CHR '':''" and r: "r = dropWhile ?sp s4"
    by (auto simp: match_shortcode_def split: list.splits if_splits)
  let ?a = "length (takeWhile ?sp s)" and ?b = "length (takeWhile ?sp s4)"
  let ?m = "takeWhile is_shortcode_char s2"
  have "s = takeWhile ?sp s @ dropWhile ?sp s" by simp
  also have "\<dots> = replicate ?a CHR '' '' @ '':'' @ s2"
    using s1 c takeWhile_spaces[of "CHR '' ''" s] by simp
  also have "s2 = ?m @ dropWhile is_shortcode_char s2" by simp
  also have "dropWhile is_shortcode_char s2 = '':'' @ s4" using s3 d by simp
  also have "s4 = takeWhile ?sp s4 @ dropWhile ?sp s4" by simp
  also have "\<dots> = replicate ?b CHR '' '' @ r"
    using r takeWhile_spaces[of "CHR '' ''" s4] by simp
  finally have "s = (replicate ?a CHR '' '' @ '':'' @ ?m @ '':'' @ replicate ?b CHR '' '') @ r"
    by simp
  moreover have "is_token (replicate ?a CHR '' '' @ '':'' @ ?m @ '':'' @ replicate ?b CHR '' '')"
    unfolding is_token_def using m
    by (intro exI[of _ ?a] exI[of _ ?m] exI[of _ ?b])
       (auto simp: list_all_iff dest: set_takeWhileD)
  moreover have "r = [] \<or> hd r \<noteq> CHR '' ''"
    using r dropWhile_no_lead[of ?sp s4] by auto
  ultimately show ?thesis by blast
qed

lemma token_match_shortcode:
  assumes "is_token t"
  shows "match_shortcode (t @ r) = Some (dropWhile (\<lambda>c. c = CHR '' '') r)"
proof -
  let ?sp = "\<lambda>c. c = CHR '' ''"
  from assms obtain a m b where t: "t = replicate a CHR '' '' @ '':'' @ m @ '':'' @ replicate b CHR '' ''"
    and m: "m \<noteq> []" "list_all is_shortcode_char m"
    by (auto simp: is_token_def)
  have nc: "\<not> is_shortcode_char CHR '':''" by (simp add: is_shortcode_char_def)
  have 1: "dropWhile ?sp (t @ r) = '':'' @ m @ '':'' @ replicate b CHR '' '' @ r"
    unfolding t by (simp add: dropWhile_append3)
  have 2: "takeWhile is_shortcode_char (m @ '':'' @ replicate b CHR '' '' @ r) = m"
    using m nc by (simp add: list_all_iff takeWhile_append2)
  have 3: "dropWhile is_shortcode_char (m @ '':'' @ replicate b CHR '' '' @ r) =
           '':'' @ replicate b CHR '' '' @ r"
    using m nc by (simp add: list_all_iff dropWhile_append2)
  have 4: "dropWhile ?sp (replicate b CHR '' '' @ r) = dropWhile ?sp r"
    by (induction b) simp_all
  show ?thesis
    using 1 2 3 4 m by (simp add: match_shortcode_def)
qed

lemma token_nonempty: "is_token t \<Longrightarrow> t \<noteq> []"
  by (auto simp: is_token_def)

lemma match_shortcode_None_iff:
  "match_shortcode s = None \<longleftrightarrow> (\<nexists>t r. s = t @ r \<and> is_token t)"
proof
  assume n: "match_shortcode s = None"
  show "\<nexists>t r. s = t @ r \<and> is_token t"
  proof
    assume "\<exists>t r. s = t @ r \<and> is_token t"
    then obtain t r where "s = t @ r" "is_token t" by blast
    with token_match_shortcode[of t r] n show False by simp
  qed
next
  assume "\<nexists>t r. s = t @ r \<and> is_token t"
  then show "match_shortcode s = None"
    using match_shortcode_token[of s] by (cases "match_shortcode s") auto
qed

lemma removes_strip_shortcodes: "removes d (strip_shortcodes d)"
proof (induction d rule: strip_shortcodes.induct)
  case 1
  show ?case by (simp add: removes_end)
next
  case (2 c cs)
  show ?case
  proof (cases "match_shortcode (c # cs)")
    case None
    then have "\<nexists>t r. c # cs = t @ r \<and> is_token t" by (simp add: match_shortcode_None_iff)
    moreover have "removes cs (strip_shortcodes cs)" using 2(1)[OF None] .
    ultimately show ?thesis using None by (simp add: removes_keep)
  next
    case (Some r)
    then obtain t where t: "c # cs = t @ r" "is_token t" "r = [] \<or> hd r \<noteq> CHR '' ''"
      using match_shortcode_token by blast
    have "removes r (strip_shortcodes r)" using 2(2)[OF Some] .
    with t have "removes (t @ r) (strip_shortcodes r)" by (intro removes_token)
    moreover have "strip_shortcodes (c # cs) = strip_shortcodes r" using Some by simp
    ultimately show ?thesis using t(1) by metis
  qed
qed

lemma removes_unique: "removes d out \<Longrightarrow> out = strip_shortcodes d"
proof (induction rule: removes.induct)
  case removes_end
  show ?case by simp
next
  case (removes_token t r out)
  have "dropWhile (\<lambda>c. c = CHR '' '') r = r"
    using removes_token(2) by (cases r) auto
  then have "match_shortcode (t @ r) = Some r"
    using token_match_shortcode[OF removes_token(1), of r] by simp
  moreover obtain c cs where "t @ r = c # cs"
    using token_nonempty[OF removes_token(1)] by (cases t) auto
  ultimately show ?case using removes_token.IH by simp
next
  case (removes_keep c cs out)
  then have "match_shortcode (c # cs) = None" by (simp add: match_shortcode_None_iff)
  with removes_keep.IH show ?case by simp
qed

text \<open>
  C9, as stated, fails.  The claim strips the tokens at the end of the description.  The
  expression is global and not anchored: a token at the start of \<^verbatim>\<open>:tada: party\<close> is
  removed too, where stripping at the end leaves the text as it is.  And a description
  that is nothing but tokens leaves the empty string, which becomes no snippet at all.
\<close>

theorem snippet_strips_every_shortcode_counterexample:
  "repo_snippet (twin\<lparr>description := Some '':tada: party''\<rparr>) = Some ''party'' \<and>
   strip_trailing_shortcodes '':tada: party'' = '':tada: party'' \<and>
   repo_snippet (twin\<lparr>description := Some ''done :tada:''\<rparr>) =
     Some (strip_trailing_shortcodes ''done :tada:'') \<and>
   repo_snippet (twin\<lparr>description := Some '':tada:''\<rparr>) = None"
  by (simp add: repo_snippet_def twin_def strip_trailing_shortcodes_def
        strip_leading_shortcodes.simps match_shortcode_def is_shortcode_char_def)

text \<open>
  C9, amended.  A repository with no description gives a result with no snippet.  For a
  description \<open>d\<close>, the snippet is \<open>d\<close> with every token removed that is met reading from
  the left, wherever it stands, together with the spaces around it; there is exactly one
  such text.  When nothing remains the result has no snippet.
\<close>

theorem snippet_strips_every_shortcode:
  "(description r = None \<longrightarrow> repo_snippet r = None) \<and>
   (\<forall>d. description r = Some d \<longrightarrow>
      removes d (strip_shortcodes d) \<and>
      (\<forall>out. removes d out \<longrightarrow> out = strip_shortcodes d) \<and>
      repo_snippet r = (if strip_shortcodes d = [] then None else Some (strip_shortcodes d))) \<and>
   snippet (repo_result account r) = repo_snippet r"
  by (auto simp: repo_snippet_def repo_result_def removes_strip_shortcodes removes_unique)

theorem snippet_strips_every_shortcode_witness:
  "removes ''a :tada: party :x'' ''aparty :x'' \<and>
   repo_snippet (twin\<lparr>description := Some ''a :tada: party :x''\<rparr>) = Some ''aparty :x''"
proof -
  have e: "strip_shortcodes ''a :tada: party :x'' = ''aparty :x''"
    by (simp add: match_shortcode_def is_shortcode_char_def)
  show ?thesis
    using snippet_strips_every_shortcode[of "twin\<lparr>description := Some ''a :tada: party :x''\<rparr>"] e
    by simp
qed

subsection \<open>Failures of the collection fetch\<close>

lemma user_pages_rejected:
  "graphql w = Inl e # rest \<Longrightarrow>
   user_pages login cursor repos w =
     Some (Inl e, w\<lparr>graphql := rest, posted := posted w @ [graphql_query ''user'' login cursor]\<rparr>)"
  by (subst user_pages.simps) (simp add: post_graphql_def)

lemma user_pages_missing_shape:
  \<open>graphql w = Inr b # rest \<Longrightarrow> user_repositories b = None \<Longrightarrow>
   user_pages login cursor repos w =
     Some (Inr repos,
       say (Warn (''User "'' @ login @
                  ''" not found, has no repositories, or access is restricted.''))
         (w\<lparr>graphql := rest, posted := posted w @ [graphql_query ''user'' login cursor]\<rparr>))\<close>
  by (subst user_pages.simps) (simp add: post_graphql_def)

lemma walk_users_missing_shape:
  \<open>graphql w = Inr b # rest \<Longrightarrow> user_repositories b = None \<Longrightarrow>
   walk_users (login # logins) m w =
     walk_users logins (m(login \<mapsto> []))
       (say (Warn (''User "'' @ login @
                   ''" not found, has no repositories, or access is restricted.''))
         (w\<lparr>graphql := rest, posted := posted w @ [graphql_query ''user'' login None]\<rparr>))\<close>
  by (simp add: user_pages_missing_shape)

lemma org_pages_rejected:
  "graphql w = Inl e # rest \<Longrightarrow>
   org_pages login cursor repos w =
     Some (Inl e, w\<lparr>graphql := rest,
                     posted := posted w @ [graphql_query ''organization'' login cursor]\<rparr>)"
  by (subst org_pages.simps) (simp add: post_graphql_def)

text \<open>
  C4.  In the user engines a response without \<^verbatim>\<open>data\<close>, \<^verbatim>\<open>user\<close> or \<^verbatim>\<open>repositories\<close>
  ends the walk of the account with a warning and the set gathered so far, and the next
  account is walked (\<open>walk_users_missing_shape\<close>).  The organization engine tests
  \<^verbatim>\<open>data\<close> and \<^verbatim>\<open>organization\<close> only: a response whose organization has no
  \<^verbatim>\<open>repositories\<close> raises a type error where the fields of \<^verbatim>\<open>repositories\<close> are read.  No
  warning is logged, nothing is recorded and the second organization is never asked for.
\<close>

theorem org_walk_raises_without_repositories:
  "walk_orgs (accounts_of ghost_acme_config) Map.empty ghost_world =
     Some (Inl TypeError,
           ghost_world\<lparr>graphql := [Inr acme_page],
             posted := [graphql_query ''organization'' ''ghost'' None]\<rparr>)"
  by (simp add: ghost_acme_config_def ghost_world_def empty_world_def org_pages.simps
        post_graphql_def organization_of_def org_without_repositories_def)

lemma search_before_init:
  "search_users U uninitialized q w = Some (Inl EngineNotInitialized, w)"
  "search_orgs U uninitialized q w = Some (Inl EngineNotInitialized, w)"
  "search_users_gists U uninitialized q w = Some (Inl EngineNotInitialized, w)"
  by (simp_all add: search_users_def search_orgs_def search_users_gists_def uninitialized_def)

lemma search_users_loop_raises:
  "g w = Some (Inl e, w1) \<Longrightarrow> search_users_loop U g q (u # us) rs w = Some (Inl e, w1)"
  by simp

lemma search_users_loop_error_source:
  "search_users_loop U g q us rs w = Some (Inl e, w') \<Longrightarrow> \<exists>w0. g w0 = Some (Inl e, w')"
proof (induction us arbitrary: rs w)
  case Nil
  then show ?case by simp
next
  case (Cons u us)
  show ?case
  proof (cases "g w")
    case None
    with Cons.prems show ?thesis by simp
  next
    case (Some p)
    obtain r w1 where p: "p = (r, w1)" by (cases p)
    show ?thesis
    proof (cases r)
      case (Inl e')
      with Cons.prems Some p show ?thesis by auto
    next
      case (Inr m)
      with Cons.prems Some p show ?thesis
        by (auto simp: Let_def split: if_splits option.splits dest: Cons.IH)
    qed
  qed
qed

text \<open>
  C2.  The search awaits \<^verbatim>\<open>getRepos()\<close> outside any \<^verbatim>\<open>try\<close>, and the producer awaits the
  POST of a page outside any \<^verbatim>\<open>try\<close>: a rejected page fetch leaves an initialized search
  as its error, although the gists and the issue search of the same engine are fetched
  inside a \<^verbatim>\<open>try\<close>.
\<close>

theorem search_raises_on_rejected_page:
  "search_users sample_deps (init_users alice_config) ''crash'' network_error_world =
     Some (Inl (HttpFailure ''Error: Network Error''),
           network_error_world\<lparr>graphql := [],
             posted := [graphql_query ''user'' ''alice'' None]\<rparr>)"
  by (simp add: search_users_def init_users_def alice_config_def rateLimit_def
        network_error_world_def empty_world_def user_pages_rejected)

subsection \<open>Accounts with nothing cached\<close>

text \<open>
  C3, as stated, fails.  The user engine leaves the iteration of an account whose set is
  empty with \<^verbatim>\<open>continue\<close>, before the issue search: no request is sent to
  \<^verbatim>\<open>/search/issues\<close> and the issue that the search would have found is not in the output.
\<close>

theorem empty_set_skips_live_search_counterexample:
  "search_users sample_deps (init_users alice_config) ''crash'' no_repos_world =
     Some (Inr [],
           no_repos_world\<lparr>graphql := [],
             posted := [graphql_query ''user'' ''alice'' None],
             console := [Warn ''No repositories found for user: alice'']\<rparr>) \<and>
   searched no_repos_world = [] \<and>
   issues_api no_repos_world = [Inr (Some [crash_issue])]"
  by (simp add: search_users_def init_users_def alice_config_def rateLimit_def
        no_repos_world_def empty_world_def user_pages_last well_shaped_def last_page_def has_next_def
        edges_of_def say_def)

lemma searched_say [simp]: "searched (say l w) = searched w"
  by (simp add: say_def)

lemma search_users_all_empty:
  assumes g: "\<forall>w. \<exists>w'. g w = Some (Inr m, w') \<and> searched w' = searched w \<and>
                         issues_api w' = issues_api w"
    and e: "\<forall>u\<in>set us. m u = None \<or> m u = Some []"
  shows "\<exists>w'. search_users_loop U g q us rs w = Some (Inr rs, w') \<and>
              searched w' = searched w \<and> issues_api w' = issues_api w"
  using e
proof (induction us arbitrary: w)
  case Nil
  then show ?case by simp
next
  case (Cons u us)
  from g obtain w1 where w1: "g w = Some (Inr m, w1)" "searched w1 = searched w"
    "issues_api w1 = issues_api w" by blast
  let ?w2 = "say (Warn (''No repositories found for user: '' @ u)) w1"
  from Cons.prems have "\<forall>u\<in>set us. m u = None \<or> m u = Some []" by simp
  from Cons.IH[OF this, of ?w2] obtain w' where
    "search_users_loop U g q us rs ?w2 = Some (Inr rs, w')" "searched w' = searched ?w2"
    "issues_api w' = issues_api ?w2" by blast
  moreover have "search_users_loop U g q (u # us) rs w = search_users_loop U g q us rs ?w2"
    using w1(1) Cons.prems by (auto split: option.splits)
  ultimately show ?case using w1 by (auto simp: say_def)
qed

text \<open>
  C3, amended.  In the user engine an account whose cached set is empty or missing is
  skipped for that search: a warning is logged and the loop goes on to the next account
  without repository results and without the issue search.  The engine with gists skips
  an account whose entry is missing or whose repositories and gists are both empty, and
  runs the issue search when only the repositories are empty.  In the organization engine
  an empty or missing set gives no repository results and the issue search runs.  A
  warning sends nothing to the issue search; when \<^verbatim>\<open>getRepos\<close> leaves the issue search
  alone and every account of the user engine is empty or missing, the search returns the
  results it started with and has sent nothing to the issue search.
\<close>

theorem empty_set_skips_account:
  "(g w = Some (Inr m, w1) \<and> (m u = None \<or> m u = Some []) \<longrightarrow>
      search_users_loop U g q (u # us) rs w =
        search_users_loop U g q us rs (say (Warn (''No repositories found for user: '' @ u)) w1)) \<and>
   (gd w = Some (Inr d, w1) \<and> d u = None \<longrightarrow>
      search_users_gists_loop U gd q (u # us) rs w =
        search_users_gists_loop U gd q us rs (say (Warn (''No data found for user: '' @ u)) w1)) \<and>
   (gd w = Some (Inr d, w1) \<and> d u = Some ([], []) \<longrightarrow>
      search_users_gists_loop U gd q (u # us) rs w =
        search_users_gists_loop U gd q us rs
          (say (Warn (''No repositories or gists found for user: '' @ u)) w1)) \<and>
   (gd w = Some (Inr d, w1) \<and> d u = Some ([], gs) \<and> gs \<noteq> [] \<longrightarrow>
      search_users_gists_loop U gd q (u # us) rs w =
        (case user_live_search U u q w1 of
           None \<Rightarrow> None
         | Some (hits, w2) \<Rightarrow>
             search_users_gists_loop U gd q us (rs @ gist_results U u q gs @ hits) w2)) \<and>
   (g w = Some (Inr m, w1) \<and> (m u = None \<or> m u = Some []) \<longrightarrow>
      search_orgs_loop U g q (u # us) rs w =
        (case org_live_search U u q w1 of
           None \<Rightarrow> None
         | Some (hits, w2) \<Rightarrow> search_orgs_loop U g q us (rs @ hits) w2)) \<and>
   searched (say l w1) = searched w1 \<and> issues_api (say l w1) = issues_api w1 \<and>
   ((\<forall>w. \<exists>w'. g w = Some (Inr m, w') \<and> searched w' = searched w \<and>
                   issues_api w' = issues_api w) \<and>
    (\<forall>u\<in>set us. m u = None \<or> m u = Some []) \<longrightarrow>
      (\<exists>w'. search_users_loop U g q us rs w = Some (Inr rs, w') \<and>
            searched w' = searched w \<and> issues_api w' = issues_api w))"
proof -
  have "(\<forall>w. \<exists>w'. g w = Some (Inr m, w') \<and> searched w' = searched w \<and>
                   issues_api w' = issues_api w) \<and>
    (\<forall>u\<in>set us. m u = None \<or> m u = Some []) \<longrightarrow>
      (\<exists>w'. search_users_loop U g q us rs w = Some (Inr rs, w') \<and>
            searched w' = searched w \<and> issues_api w' = issues_api w)"
    using search_users_all_empty[of g m us U q rs w] by blast
  then show ?thesis
    by (auto simp: user_repo_results_def org_repo_results_def js_sort_def say_def
             split: option.splits)
qed

lemma org_pages_last_empty:
  "org_pages ''acme'' None [] empty_org_world =
     Some (Inr [], empty_org_world\<lparr>graphql := [],
                     posted := [graphql_query ''organization'' ''acme'' None]\<rparr>)"
  by (simp add: org_pages.simps empty_org_world_def empty_world_def post_graphql_def
        organization_of_def)

theorem empty_set_skips_account_witness:
  \<open>search_users_loop sample_deps (rateLimit (walk_users [''alice''] Map.empty) 1) ''crash''
      [''alice''] [] no_repos_world =
     Some (Inr [],
           no_repos_world\<lparr>graphql := [],
             posted := [graphql_query ''user'' ''alice'' None],
             console := [Warn ''No repositories found for user: alice'']\<rparr>) \<and>
   search_orgs_loop sample_deps (rateLimit (walk_orgs [''acme''] Map.empty) 1) ''crash''
      [''acme''] [] empty_org_world =
     Some (Inr [item_result sample_deps crash_issue],
           empty_org_world\<lparr>graphql := [], issues_api := [],
             posted := [graphql_query ''organization'' ''acme'' None],
             searched := [''org:acme "crash"'']\<rparr>)\<close>
proof -
  let ?w1 = "no_repos_world\<lparr>graphql := [], posted := [graphql_query ''user'' ''alice'' None]\<rparr>"
  let ?g = "rateLimit (walk_users [''alice''] Map.empty) 1"
  let ?v1 = "empty_org_world\<lparr>graphql := [],
               posted := [graphql_query ''organization'' ''acme'' None]\<rparr>"
  let ?h = "rateLimit (walk_orgs [''acme''] Map.empty) 1"
  have a: "?g no_repos_world = Some (Inr [''alice'' \<mapsto> []], ?w1)"
    by (simp add: rateLimit_def no_repos_world_def empty_world_def user_pages_last well_shaped_def
          last_page_def has_next_def edges_of_def)
  have b: "?h empty_org_world = Some (Inr [''acme'' \<mapsto> []], ?v1)"
    by (simp add: rateLimit_def org_pages_last_empty)
  have c: \<open>scoped_query sample_deps ''org'' ''acme'' ''crash'' = ''org:acme "crash"''\<close>
    by (simp add: scoped_query_def test_qualifier_def qualifier_here_def sample_deps_def
          sample_escapeQuotes_def)
  have d: \<open>org_live_search sample_deps ''acme'' ''crash'' ?v1 =
     Some ([item_result sample_deps crash_issue],
           ?v1\<lparr>issues_api := [], searched := [''org:acme "crash"'']\<rparr>)\<close>
    by (simp add: org_live_search_def get_issues_def c empty_org_world_def empty_world_def)
  show ?thesis
    using empty_set_skips_account[of ?g no_repos_world "[''alice'' \<mapsto> []]" ?w1 "''alice''"
            sample_deps "''crash''" "[]" "[]"]
      empty_set_skips_account[of ?h empty_org_world "[''acme'' \<mapsto> []]" ?v1 "''acme''"
            sample_deps "''crash''" "[]" "[]"] a b d
    by (simp add: say_def no_repos_world_def empty_org_world_def empty_world_def)
qed

subsection \<open>Timestamps\<close>

lemma user_repo_results_undated: "r \<in> set (user_repo_results U a q repos) \<Longrightarrow> modified r = None"
  by (auto simp: user_repo_results_def repo_result_def)

lemma org_repo_results_undated: "r \<in> set (org_repo_results U a q repos) \<Longrightarrow> modified r = None"
  by (auto simp: org_repo_results_def repo_result_def)

lemma gist_results_undated: "r \<in> set (gist_results U a q gists) \<Longrightarrow> modified r = None"
  by (auto simp: gist_results_def gist_result_def)

lemma user_live_search_items:
  "user_live_search U a q w = Some (hits, w') \<Longrightarrow> r \<in> set hits \<Longrightarrow> \<exists>i. r = item_result U i"
  by (auto simp: user_live_search_def split: option.splits sum.splits prod.splits)

lemma org_live_search_items:
  "org_live_search U a q w = Some (hits, w') \<Longrightarrow> r \<in> set hits \<Longrightarrow> \<exists>i. r = item_result U i"
  by (auto simp: org_live_search_def split: option.splits sum.splits prod.splits)

lemma search_users_loop_dated:
  "search_users_loop U g q us rs w = Some (Inr out, w') \<Longrightarrow>
   \<forall>r\<in>set rs. dated_as_item U r \<Longrightarrow> \<forall>r\<in>set out. dated_as_item U r"
proof (induction us arbitrary: rs w)
  case Nil
  then show ?case by simp
next
  case (Cons u us)
  from Cons.prems(1) obtain m w1 where g: "g w = Some (Inr m, w1)"
    by (auto split: option.splits sum.splits prod.splits)
  let ?userRepos = "case m u of None \<Rightarrow> [] | Some s \<Rightarrow> s"
  show ?case
  proof (cases "?userRepos = []")
    case True
    with Cons.prems(1) g have
      "search_users_loop U g q us rs (say (Warn (''No repositories found for user: '' @ u)) w1) =
         Some (Inr out, w')" by simp
    from Cons.IH[OF this Cons.prems(2)] show ?thesis .
  next
    case False
    with Cons.prems(1) g obtain hits w2 where l: "user_live_search U u q w1 = Some (hits, w2)"
      and s: "search_users_loop U g q us (rs @ user_repo_results U u q ?userRepos @ hits) w2 =
                Some (Inr out, w')"
      by (auto split: option.splits prod.splits)
    have "\<forall>r\<in>set (rs @ user_repo_results U u q ?userRepos @ hits). dated_as_item U r"
      using Cons.prems(2) user_live_search_items[OF l]
      by (auto simp: dated_as_item_def dest: user_repo_results_undated)
    from Cons.IH[OF s this] show ?thesis .
  qed
qed

lemma search_orgs_loop_dated:
  "search_orgs_loop U g q us rs w = Some (Inr out, w') \<Longrightarrow>
   \<forall>r\<in>set rs. dated_as_item U r \<Longrightarrow> \<forall>r\<in>set out. dated_as_item U r"
proof (induction us arbitrary: rs w)
  case Nil
  then show ?case by simp
next
  case (Cons u us)
  from Cons.prems(1) obtain m w1 where g: "g w = Some (Inr m, w1)"
    by (auto split: option.splits sum.splits prod.splits)
  let ?orgRepos = "case m u of None \<Rightarrow> [] | Some s \<Rightarrow> s"
  from Cons.prems(1) g obtain hits w2 where l: "org_live_search U u q w1 = Some (hits, w2)"
    and s: "search_orgs_loop U g q us (rs @ org_repo_results U u q ?orgRepos @ hits) w2 =
              Some (Inr out, w')"
    by (auto split: option.splits prod.splits)
  have "\<forall>r\<in>set (rs @ org_repo_results U u q ?orgRepos @ hits). dated_as_item U r"
    using Cons.prems(2) org_live_search_items[OF l]
    by (auto simp: dated_as_item_def dest: org_repo_results_undated)
  from Cons.IH[OF s this] show ?case .
qed

lemma search_users_gists_loop_dated:
  "search_users_gists_loop U g q us rs w = Some (Inr out, w') \<Longrightarrow>
   \<forall>r\<in>set rs. dated_as_item U r \<Longrightarrow> \<forall>r\<in>set out. dated_as_item U r"
proof (induction us arbitrary: rs w)
  case Nil
  then show ?case by simp
next
  case (Cons u us)
  from Cons.prems(1) obtain d w1 where g: "g w = Some (Inr d, w1)"
    by (auto split: option.splits sum.splits prod.splits)
  show ?case
  proof (cases "d u")
    case None
    with Cons.prems(1) g have
      "search_users_gists_loop U g q us rs (say (Warn (''No data found for user: '' @ u)) w1) =
         Some (Inr out, w')" by simp
    from Cons.IH[OF this Cons.prems(2)] show ?thesis .
  next
    case (Some p)
    obtain repos gists where p: "p = (repos, gists)" by (cases p)
    show ?thesis
    proof (cases "repos = [] \<and> gists = []")
      case True
      with Cons.prems(1) g Some p have
        "search_users_gists_loop U g q us rs
           (say (Warn (''No repositories or gists found for user: '' @ u)) w1) =
         Some (Inr out, w')" by simp
      from Cons.IH[OF this Cons.prems(2)] show ?thesis .
    next
      case False
      with Cons.prems(1) g Some p obtain hits w2 where
        l: "user_live_search U u q w1 = Some (hits, w2)" and
        s: "search_users_gists_loop U g q us
              (rs @ user_repo_results U u q repos @ gist_results U u q gists @ hits) w2 =
              Some (Inr out, w')"
        by (auto split: option.splits prod.splits)
      have "\<forall>r\<in>set (rs @ user_repo_results U u q repos @ gist_results U u q gists @ hits).
              dated_as_item U r"
        using Cons.prems(2) user_live_search_items[OF l]
        by (auto simp: dated_as_item_def
                 dest: user_repo_results_undated gist_results_undated)
      from Cons.IH[OF s this] show ?thesis .
    qed
  qed
qed

text \<open>
  C10.  No result of a repository or of a gist has a \<^verbatim>\<open>modified\<close> field; the result of an
  issue or pull request has the time of its \<^verbatim>\<open>updated_at\<close>.  In the list a search
  returns, in each of the three engines, a result with a \<^verbatim>\<open>modified\<close> field is the result
  of an issue or pull request.
\<close>

theorem only_live_results_are_dated:
  "(\<forall>r\<in>set (user_repo_results U a q repos). modified r = None) \<and>
   (\<forall>r\<in>set (org_repo_results U a q repos). modified r = None) \<and>
   (\<forall>r\<in>set (gist_results U a q gists). modified r = None) \<and>
   modified (item_result U i) = Some (getUnixTime U (item_updated_at i)) \<and>
   (search_users U eng q w = Some (Inr out, w') \<longrightarrow>
      (\<forall>r\<in>set out. modified r \<noteq> None \<longrightarrow> (\<exists>i. r = item_result U i))) \<and>
   (search_orgs U eng q w = Some (Inr out, w') \<longrightarrow>
      (\<forall>r\<in>set out. modified r \<noteq> None \<longrightarrow> (\<exists>i. r = item_result U i))) \<and>
   (search_users_gists U geng q w = Some (Inr out, w') \<longrightarrow>
      (\<forall>r\<in>set out. modified r \<noteq> None \<longrightarrow> (\<exists>i. r = item_result U i)))"
proof -
  have 1: "search_users U eng q w = Some (Inr out, w') \<longrightarrow>
      (\<forall>r\<in>set out. modified r \<noteq> None \<longrightarrow> (\<exists>i. r = item_result U i))"
    using search_users_loop_dated[of U _ q _ "[]" w out w']
    by (auto simp: search_users_def dated_as_item_def split: option.splits)
  have 2: "search_orgs U eng q w = Some (Inr out, w') \<longrightarrow>
      (\<forall>r\<in>set out. modified r \<noteq> None \<longrightarrow> (\<exists>i. r = item_result U i))"
    using search_orgs_loop_dated[of U _ q _ "[]" w out w']
    by (auto simp: search_orgs_def dated_as_item_def split: option.splits)
  have 3: "search_users_gists U geng q w = Some (Inr out, w') \<longrightarrow>
      (\<forall>r\<in>set out. modified r \<noteq> None \<longrightarrow> (\<exists>i. r = item_result U i))"
    using search_users_gists_loop_dated[of U _ q _ "[]" w out w']
    by (auto simp: search_users_gists_def dated_as_item_def split: option.splits)
  have 4: "modified (item_result U i) = Some (getUnixTime U (item_updated_at i))"
    by (simp add: item_result_def)
  show ?thesis
    using 1 2 3 4 user_repo_results_undated[of _ U a q repos]
      org_repo_results_undated[of _ U a q repos] gist_results_undated[of _ U a q gists]
    by blast
qed

lemma full_walk:
  "walk_users_gists [''alice''] Map.empty full_world =
     Some (Inr [''alice'' \<mapsto> ([(0, tool_x), (1, old_tool)], [(0, tool_gist)])],
           full_world\<lparr>graphql := [], gists_api := [],
             posted := [graphql_query ''user'' ''alice'' None],
             gists_requested := [''/users/alice/gists'']\<rparr>)"
  by (simp add: full_world_def empty_world_def user_pages_last well_shaped_def last_page_def has_next_def
        edges_of_def fetch_gists_def get_gists_def set_add_def)

lemma search_users_gists_loop_found:
  "g w = Some (Inr d, w1) \<Longrightarrow> d u = Some (repos, gists) \<Longrightarrow> \<not> (repos = [] \<and> gists = []) \<Longrightarrow>
   user_live_search U u q w1 = Some (hits, w2) \<Longrightarrow>
   search_users_gists_loop U g q (u # us) rs w =
     search_users_gists_loop U g q us
       (rs @ user_repo_results U u q repos @ gist_results U u q gists @ hits) w2"
  by auto

lemma full_search:
  "search_users_gists sample_deps (init_users_gists alice_config) ''tool'' full_world =
     Some (Inr [repo_result ''alice'' tool_x, gist_result ''alice'' tool_gist,
                item_result sample_deps crash_issue],
           full_world\<lparr>graphql := [], gists_api := [], issues_api := [],
             posted := [graphql_query ''user'' ''alice'' None],
             gists_requested := [''/users/alice/gists''],
             searched := [scoped_query sample_deps ''user'' ''alice'' ''tool'']\<rparr>)"
proof -
  let ?g = "rateLimit (walk_users_gists [''alice''] Map.empty) 1"
  let ?w1 = "full_world\<lparr>graphql := [], gists_api := [],
             posted := [graphql_query ''user'' ''alice'' None],
             gists_requested := [''/users/alice/gists'']\<rparr>"
  let ?w2 = "full_world\<lparr>graphql := [], gists_api := [], issues_api := [],
             posted := [graphql_query ''user'' ''alice'' None],
             gists_requested := [''/users/alice/gists''],
             searched := [scoped_query sample_deps ''user'' ''alice'' ''tool'']\<rparr>"
  have r: "user_repo_results sample_deps ''alice'' ''tool'' [(0, tool_x), (1, old_tool)] =
           [repo_result ''alice'' tool_x]"
    by (simp add: user_repo_results_def keep_user_repo_def js_sort_def tool_x_def old_tool_def
          sample_deps_def sample_fuzzyIncludes_def truthy_def)
  have g: "gist_results sample_deps ''alice'' ''tool'' [(0, tool_gist)] =
           [gist_result ''alice'' tool_gist]"
    by (simp add: gist_results_def js_sort_def tool_gist_def sample_deps_def
          sample_fuzzyIncludes_def truthy_def)
  have w: "?g full_world =
     Some (Inr [''alice'' \<mapsto> ([(0, tool_x), (1, old_tool)], [(0, tool_gist)])], ?w1)"
    by (simp only: rateLimit_def full_walk)
  have l: "user_live_search sample_deps ''alice'' ''tool'' ?w1 =
     Some ([item_result sample_deps crash_issue], ?w2)"
    by (simp add: user_live_search_def get_issues_def full_world_def empty_world_def)
  have "search_users_gists_loop sample_deps ?g ''tool'' [''alice''] [] full_world =
        search_users_gists_loop sample_deps ?g ''tool'' []
          ([] @ user_repo_results sample_deps ''alice'' ''tool'' [(0, tool_x), (1, old_tool)] @
           gist_results sample_deps ''alice'' ''tool'' [(0, tool_gist)] @
           [item_result sample_deps crash_issue]) ?w2"
    by (rule search_users_gists_loop_found
          [where g = "?g" and w = full_world and
             d = "[''alice'' \<mapsto> ([(0, tool_x), (1, old_tool)], [(0, tool_gist)])]", OF w _ _ l])
       simp_all
  also have "\<dots> = Some (Inr [repo_result ''alice'' tool_x, gist_result ''alice'' tool_gist,
                   item_result sample_deps crash_issue], ?w2)"
    by (simp add: r g del: One_nat_def)
  finally show ?thesis
    by (simp add: search_users_gists_def init_users_gists_def alice_config_def
             del: One_nat_def)
qed

theorem only_live_results_are_dated_witness:
  "search_users_gists sample_deps (init_users_gists alice_config) ''tool'' full_world =
     Some (Inr [repo_result ''alice'' tool_x, gist_result ''alice'' tool_gist,
                item_result sample_deps crash_issue],
           full_world\<lparr>graphql := [], gists_api := [], issues_api := [],
             posted := [graphql_query ''user'' ''alice'' None],
             gists_requested := [''/users/alice/gists''],
             searched := [scoped_query sample_deps ''user'' ''alice'' ''tool'']\<rparr>) \<and>
   map modified [repo_result ''alice'' tool_x, gist_result ''alice'' tool_gist,
                 item_result sample_deps crash_issue] = [None, None, Some 20] \<and>
   title (item_result sample_deps crash_issue) = ''Issue in alice/tool-x: tool crash''"
proof -
  have t: "title (item_result sample_deps crash_issue) = ''Issue in alice/tool-x: tool crash''"
    by (simp add: item_result_def crash_issue_def)
  have m: "modified (item_result sample_deps crash_issue) = Some 20"
    using only_live_results_are_dated[of sample_deps "''alice''" "''tool''"
            "[(0, tool_x), (1, old_tool)]" "[(0, tool_gist)]" crash_issue]
    by (simp add: sample_deps_def crash_issue_def)
  show ?thesis
    using full_search t m by (simp add: repo_result_def gist_result_def)
qed

subsection \<open>Overlapping calls of the memoizer\<close>

lemma calls_in_flight:
  "in_flight s = Some r \<Longrightarrow>
   memo_run (map Call cs) s = s\<lparr>handed := handed s @ map (\<lambda>c. (c, r)) cs\<rparr>"
  by (induction cs arbitrary: s) (simp_all add: memo_run_def)

lemma memo_run_append: "memo_run (xs @ ys) s = memo_run ys (memo_run xs s)"
  by (simp add: memo_run_def)

lemma memo_invariant:
  "started (memo_run evs idle) =
     finished (memo_run evs idle) + (if in_flight (memo_run evs idle) = None then 0 else 1) \<and>
   (\<forall>r. in_flight (memo_run evs idle) = Some r \<longrightarrow> Suc r = started (memo_run evs idle))"
proof (induction evs rule: rev_induct)
  case Nil
  show ?case by (simp add: memo_run_def idle_def)
next
  case (snoc e evs)
  then show ?case
    by (cases e) (auto simp: memo_run_append memo_run_def split: option.splits)
qed

text \<open>
  C5, on the memoizer modelled from the spec.  Callers that arrive while a run is in flight
  are all handed that run and no run starts.  A burst of callers that finds no run in
  flight starts one run, and all of them are handed it.  After any sequence of calls and
  settlings at most one run is unsettled, and it is the last one started: a run starts
  only when the one before has settled.  When the run in flight settles, also by a
  rejection, nothing is kept, and the next caller starts a fresh run.
\<close>

theorem single_flight:
  "(in_flight s = Some r \<longrightarrow>
      memo_run (map Call cs) s = s\<lparr>handed := handed s @ map (\<lambda>c. (c, r)) cs\<rparr>) \<and>
   (in_flight s = None \<longrightarrow>
      memo_run (map Call (c # cs)) s =
        s\<lparr>in_flight := Some (started s), started := Suc (started s),
          handed := handed s @ map (\<lambda>c. (c, started s)) (c # cs)\<rparr>) \<and>
   started (memo_run evs idle) =
     finished (memo_run evs idle) + (if in_flight (memo_run evs idle) = None then 0 else 1) \<and>
   (\<forall>r. in_flight (memo_run evs idle) = Some r \<longrightarrow> Suc r = started (memo_run evs idle)) \<and>
   (in_flight s = Some r \<longrightarrow>
      memo_run [Settle ok, Call c] s =
        s\<lparr>in_flight := Some (started s), started := Suc (started s),
          finished := Suc (finished s), handed := handed s @ [(c, started s)]\<rparr>)"
proof -
  have 1: "in_flight s = Some r \<longrightarrow>
      memo_run (map Call cs) s = s\<lparr>handed := handed s @ map (\<lambda>c. (c, r)) cs\<rparr>"
    by (simp add: calls_in_flight)
  have 2: "in_flight s = None \<longrightarrow>
      memo_run (map Call (c # cs)) s =
        s\<lparr>in_flight := Some (started s), started := Suc (started s),
          handed := handed s @ map (\<lambda>c. (c, started s)) (c # cs)\<rparr>"
  proof
    assume n: "in_flight s = None"
    let ?s1 = "memo_step (Call c) s"
    have i: "in_flight ?s1 = Some (started s)" using n by simp
    have "memo_run (map Call (c # cs)) s = memo_run (map Call cs) ?s1"
      by (simp add: memo_run_def)
    also have "\<dots> = ?s1\<lparr>handed := handed ?s1 @ map (\<lambda>c. (c, started s)) cs\<rparr>"
      by (rule calls_in_flight[OF i])
    finally show "memo_run (map Call (c # cs)) s =
        s\<lparr>in_flight := Some (started s), started := Suc (started s),
          handed := handed s @ map (\<lambda>c. (c, started s)) (c # cs)\<rparr>"
      using n by simp
  qed
  have 3: "in_flight s = Some r \<longrightarrow>
      memo_run [Settle ok, Call c] s =
        s\<lparr>in_flight := Some (started s), started := Suc (started s),
          finished := Suc (finished s), handed := handed s @ [(c, started s)]\<rparr>"
    by (simp add: memo_run_def)
  show ?thesis using 1 2 3 memo_invariant[of evs] by blast
qed

theorem single_flight_witness:
  "memo_run [Call 10, Call 11, Call 12, Settle False, Call 13, Call 14] idle =
     \<lparr> in_flight = Some 1, started = 2, finished = 1,
       handed = [(10, 0), (11, 0), (12, 0), (13, 1), (14, 1)] \<rparr>"
proof -
  let ?s = "\<lparr> in_flight = Some 0, started = 1, finished = 0,
              handed = [(10, 0), (11, 0), (12, 0)] \<rparr>"
  have a: "memo_run (map Call [10, 11, 12]) idle = ?s"
    using single_flight[of idle 0 "[11, 12]" 10 "[]"] by (simp add: idle_def)
  have b: "memo_run [Settle False, Call 13] ?s =
             ?s\<lparr>in_flight := Some 1, started := 2, finished := 1,
                handed := [(10, 0), (11, 0), (12, 0), (13, 1)]\<rparr>"
    using single_flight[of ?s 0 "[]" 13 "[]" False] by simp
  have c: "memo_run (map Call [14])
             (?s\<lparr>in_flight := Some 1, started := 2, finished := 1,
                handed := [(10, 0), (11, 0), (12, 0), (13, 1)]\<rparr>) =
           \<lparr> in_flight = Some 1, started = 2, finished = 1,
             handed = [(10, 0), (11, 0), (12, 0), (13, 1), (14, 1)] \<rparr>"
    using single_flight[of "?s\<lparr>in_flight := Some 1, started := 2, finished := 1,
                handed := [(10, 0), (11, 0), (12, 0), (13, 1)]\<rparr>" 1 "[14]" 0 "[]"] by simp
  have "memo_run [Call 10, Call 11, Call 12, Settle False, Call 13, Call 14] idle =
        memo_run (map Call [14]) (memo_run [Settle False, Call 13]
          (memo_run (map Call [10, 11, 12]) idle))"
    by (simp add: memo_run_def)
  then show ?thesis using a b c by simp
qed

end
